theory Spec2Isabelle
  imports Complex_Main
begin

section \<open>JavaScript numbers\<close>

text \<open>
  A JavaScript Number is an IEEE 754 binary64 value: a finite real, negative zero, an
  infinity or NaN (\<open>Fin 0\<close> is positive zero). The result of an arithmetic operation on
  finite operands is the exact real result rounded to the nearest binary64 value, ties
  to even, with gradual underflow and overflow to an infinity. Storing a Number in a
  \<^verbatim>\<open>Float32Array\<close> rounds it in the same way to binary32.
\<close>

datatype jsnum = Fin real | NegZero | PInf | NInf | NaN

fun negative :: "jsnum \<Rightarrow> bool" where
  "negative (Fin a) = (a < 0)"
| "negative NegZero = True"
| "negative NInf = True"
| "negative _ = False"

fun is_inf :: "jsnum \<Rightarrow> bool" where
  "is_inf PInf = True"
| "is_inf NInf = True"
| "is_inf _ = False"

fun is_zero :: "jsnum \<Rightarrow> bool" where
  "is_zero (Fin a) = (a = 0)"
| "is_zero NegZero = True"
| "is_zero _ = False"

text \<open>The real value of a finite Number (both zeros have the value 0).\<close>

fun val :: "jsnum \<Rightarrow> real" where
  "val (Fin a) = a"
| "val _ = 0"

fun finite_num :: "jsnum \<Rightarrow> bool" where
  "finite_num (Fin a) = True"
| "finite_num NegZero = True"
| "finite_num _ = False"

definition signed_inf :: "bool \<Rightarrow> jsnum" where
  "signed_inf neg = (if neg then NInf else PInf)"

definition signed_zero :: "bool \<Rightarrow> jsnum" where
  "signed_zero neg = (if neg then NegZero else Fin 0)"

text \<open>The power \<open>2\<^sup>k\<close> for an integer exponent.\<close>

definition pow2 :: "int \<Rightarrow> real" where
  "pow2 k = (if 0 \<le> k then 2 ^ nat k else 1 / 2 ^ nat (- k))"

text \<open>The integer nearest to a real, a tie going to the even neighbour.\<close>

definition rne :: "real \<Rightarrow> int" where
  "rne m = (let f = \<lfloor>m\<rfloor>; d = m - of_int f in
            if d < 1 / 2 then f
            else if 1 / 2 < d then f + 1
            else if even f then f else f + 1)"

text \<open>
  Rounding a real to a binary format with \<open>p\<close> significant bits whose smallest positive
  value is \<open>2\<^sup>e\<^sup>m\<^sup>i\<^sup>n\<close>: the spacing of the format at \<open>x\<close> is \<open>2\<close> to the power
  \<open>max (\<lfloor>log\<^sub>2 |x|\<rfloor> - (p - 1)) emin\<close>, and \<open>x\<close> goes to the nearest multiple of it.
\<close>

definition round_binary :: "nat \<Rightarrow> int \<Rightarrow> real \<Rightarrow> real" where
  "round_binary p emin x =
     (if x = 0 then 0
      else (let q = pow2 (max (\<lfloor>log 2 \<bar>x\<bar>\<rfloor> - (int p - 1)) emin)
            in of_int (rne (x / q)) * q))"

text \<open>
  The Number for an exact result \<open>x\<close> whose sign is \<open>neg\<close>: an infinity when the rounded
  magnitude reaches \<open>2\<^sup>e\<^sup>m\<^sup>a\<^sup>x\<close>, a zero of that sign when it rounds to zero.
\<close>

definition to_format :: "nat \<Rightarrow> int \<Rightarrow> nat \<Rightarrow> bool \<Rightarrow> real \<Rightarrow> jsnum" where
  "to_format p emin emax neg x =
     (let y = round_binary p emin x in
      if 2 ^ emax \<le> \<bar>y\<bar> then signed_inf neg
      else if y = 0 then signed_zero neg
      else Fin y)"

definition rnd64 :: "bool \<Rightarrow> real \<Rightarrow> jsnum" where
  "rnd64 = to_format 53 (- 1074) 1024"

definition rnd32 :: "bool \<Rightarrow> real \<Rightarrow> jsnum" where
  "rnd32 = to_format 24 (- 149) 128"

definition num_add :: "jsnum \<Rightarrow> jsnum \<Rightarrow> jsnum" where
  "num_add a b =
     (if a = NaN \<or> b = NaN then NaN
      else if is_inf a then (if is_inf b \<and> negative a \<noteq> negative b then NaN else a)
      else if is_inf b then b
      else (let s = val a + val b in
            if s = 0 then signed_zero (negative a \<and> negative b)
            else rnd64 (s < 0) s))"

definition num_mul :: "jsnum \<Rightarrow> jsnum \<Rightarrow> jsnum" where
  "num_mul a b =
     (if a = NaN \<or> b = NaN then NaN
      else if is_inf a \<or> is_inf b then
        (if is_zero a \<or> is_zero b then NaN else signed_inf (negative a \<noteq> negative b))
      else rnd64 (negative a \<noteq> negative b) (val a * val b))"

definition num_div :: "jsnum \<Rightarrow> jsnum \<Rightarrow> jsnum" where
  "num_div a b =
     (if a = NaN \<or> b = NaN then NaN
      else if is_inf a then
        (if is_inf b then NaN else signed_inf (negative a \<noteq> negative b))
      else if is_inf b then signed_zero (negative a \<noteq> negative b)
      else if is_zero b then
        (if is_zero a then NaN else signed_inf (negative a \<noteq> negative b))
      else rnd64 (negative a \<noteq> negative b) (val a / val b))"

text \<open>The conversion of a Number to binary32, as an element store of a \<^verbatim>\<open>Float32Array\<close>.\<close>

fun fround :: "jsnum \<Rightarrow> jsnum" where
  "fround (Fin a) = rnd32 (a < 0) a"
| "fround x = x"

text \<open>\<^verbatim>\<open>Math.PI\<close>, the binary64 value nearest to \<open>\<pi>\<close>: \<open>884279719003555 / 2\<^sup>4\<^sup>8\<close>.\<close>

definition Math_PI :: jsnum where
  "Math_PI = Fin (884279719003555 / 2 ^ 48)"

text \<open>
  \<^verbatim>\<open>Math.cos\<close> and \<^verbatim>\<open>Math.sin\<close>. ECMAScript fixes their values at NaN, at the infinities
  and at the zeros; elsewhere the result is an approximation that the implementation
  chooses, which is a parameter here.
\<close>

record math_lib =
  approx_cos :: "real \<Rightarrow> jsnum"
  approx_sin :: "real \<Rightarrow> jsnum"

fun Math_cos :: "math_lib \<Rightarrow> jsnum \<Rightarrow> jsnum" where
  "Math_cos lib (Fin a) = (if a = 0 then Fin 1 else approx_cos lib a)"
| "Math_cos lib NegZero = Fin 1"
| "Math_cos lib _ = NaN"

fun Math_sin :: "math_lib \<Rightarrow> jsnum \<Rightarrow> jsnum" where
  "Math_sin lib (Fin a) = (if a = 0 then Fin 0 else approx_sin lib a)"
| "Math_sin lib NegZero = NegZero"
| "Math_sin lib _ = NaN"

text \<open>An implementation whose cosine and sine are the correctly rounded real functions.\<close>

definition correctly_rounded :: math_lib where
  "correctly_rounded =
     \<lparr>approx_cos = (\<lambda>t. rnd64 (cos t < 0) (cos t)),
      approx_sin = (\<lambda>t. rnd64 (sin t < 0) (sin t))\<rparr>"

text \<open>
  An integer-valued Number, as the loop counters and the counts are (an integer of
  magnitude up to \<open>2\<^sup>5\<^sup>3\<close> is a Number exactly).
\<close>

definition num_of_int :: "int \<Rightarrow> jsnum" where
  "num_of_int k = rnd64 (k < 0) (of_int k)"

section \<open>The vertex generators (geometry module)\<close>

text \<open>
  \<^verbatim>\<open>generateCircleVertices(cx, cy, radius, numSegments)\<close>. The array \<^verbatim>\<open>vertices\<close> starts
  as \<^verbatim>\<open>[cx, cy]\<close>; the loop \<^verbatim>\<open>for (let i = 0; i <= numSegments; i++)\<close> pushes \<^verbatim>\<open>x, y\<close>;
  \<^verbatim>\<open>new Float32Array(vertices)\<close> converts every entry to binary32. The count is an
  integer-valued Number, taken as an \<^typ>\<open>int\<close>; the function has no \<^verbatim>\<open>throw\<close> statement and
  no check of its arguments.
\<close>

function circle_loop ::
  "math_lib \<Rightarrow> jsnum \<Rightarrow> jsnum \<Rightarrow> jsnum \<Rightarrow> jsnum \<Rightarrow> int \<Rightarrow> int \<Rightarrow> jsnum list \<Rightarrow> jsnum list" where
  "circle_loop lib cx cy radius angleStep numSegments i vertices =
     (if i \<le> numSegments then
        (let angle = num_mul (num_of_int i) angleStep;
             x = num_add cx (num_mul radius (Math_cos lib angle));
             y = num_add cy (num_mul radius (Math_sin lib angle))
         in circle_loop lib cx cy radius angleStep numSegments (i + 1) (vertices @ [x, y]))
      else vertices)"
  by pat_completeness auto
termination
  by (relation "measure (\<lambda>(lib, cx, cy, radius, angleStep, numSegments, i, vertices).
                           nat (numSegments + 1 - i))") auto

definition generateCircleVertices ::
  "math_lib \<Rightarrow> jsnum \<Rightarrow> jsnum \<Rightarrow> jsnum \<Rightarrow> int \<Rightarrow> jsnum list" where
  "generateCircleVertices lib cx cy radius numSegments =
     (let vertices = [cx, cy];
          angleStep = num_div (num_mul Math_PI (Fin 2)) (num_of_int numSegments)
      in map fround (circle_loop lib cx cy radius angleStep numSegments 0 vertices))"

text \<open>
  \<^verbatim>\<open>generatePolygonVertices(cx, cy, radius, numSides)\<close>: \<^verbatim>\<open>vertices\<close> starts empty and
  the loop is \<^verbatim>\<open>for (let i = 0; i < numSides; i++)\<close>.
\<close>

function polygon_loop ::
  "math_lib \<Rightarrow> jsnum \<Rightarrow> jsnum \<Rightarrow> jsnum \<Rightarrow> jsnum \<Rightarrow> int \<Rightarrow> int \<Rightarrow> jsnum list \<Rightarrow> jsnum list" where
  "polygon_loop lib cx cy radius angleStep numSides i vertices =
     (if i < numSides then
        (let angle = num_mul (num_of_int i) angleStep;
             x = num_add cx (num_mul radius (Math_cos lib angle));
             y = num_add cy (num_mul radius (Math_sin lib angle))
         in polygon_loop lib cx cy radius angleStep numSides (i + 1) (vertices @ [x, y]))
      else vertices)"
  by pat_completeness auto
termination
  by (relation "measure (\<lambda>(lib, cx, cy, radius, angleStep, numSides, i, vertices).
                           nat (numSides - i))") auto

definition generatePolygonVertices ::
  "math_lib \<Rightarrow> jsnum \<Rightarrow> jsnum \<Rightarrow> jsnum \<Rightarrow> int \<Rightarrow> jsnum list" where
  "generatePolygonVertices lib cx cy radius numSides =
     (let vertices = [];
          angleStep = num_div (num_mul Math_PI (Fin 2)) (num_of_int numSides)
      in map fround (polygon_loop lib cx cy radius angleStep numSides 0 vertices))"

text \<open>
  The flat coordinate array read as a sequence of two-dimensional points: point \<open>i\<close> is
  the pair of the entries \<open>2 i\<close> and \<open>2 i + 1\<close>.
\<close>

fun points :: "jsnum list \<Rightarrow> (jsnum \<times> jsnum) list" where
  "points (x # y # rest) = (x, y) # points rest"
| "points _ = []"

text \<open>
  The angle step \<^verbatim>\<open>(Math.PI * 2) / n\<close> and the two Numbers that a loop body computes for
  the counter \<open>i\<close>, before their conversion to binary32.
\<close>

definition angle_step :: "int \<Rightarrow> jsnum" where
  "angle_step n = num_div (num_mul Math_PI (Fin 2)) (num_of_int n)"

definition sample_x :: "math_lib \<Rightarrow> jsnum \<Rightarrow> jsnum \<Rightarrow> jsnum \<Rightarrow> int \<Rightarrow> jsnum" where
  "sample_x lib cx radius angleStep i =
     num_add cx (num_mul radius (Math_cos lib (num_mul (num_of_int i) angleStep)))"

definition sample_y :: "math_lib \<Rightarrow> jsnum \<Rightarrow> jsnum \<Rightarrow> jsnum \<Rightarrow> int \<Rightarrow> jsnum" where
  "sample_y lib cy radius angleStep i =
     num_add cy (num_mul radius (Math_sin lib (num_mul (num_of_int i) angleStep)))"

text \<open>
  The reading of the contract's distance property: a point is finite and its Euclidean
  distance from the center \<open>(cx, cy)\<close> differs from \<open>r\<close> by at most \<open>tol\<close>.
\<close>

definition on_circle :: "real \<Rightarrow> real \<Rightarrow> real \<Rightarrow> real \<Rightarrow> jsnum \<times> jsnum \<Rightarrow> bool" where
  "on_circle cx cy r tol p =
     (finite_num (fst p) \<and> finite_num (snd p)
      \<and> \<bar>sqrt ((val (fst p) - cx)\<^sup>2 + (val (snd p) - cy)\<^sup>2) - r\<bar> \<le> tol)"

text \<open>
  What is asked of an implementation's cosine and sine in the statements about distances
  and tolerances: a finite result within \<open>eps\<close> of the real function.
\<close>

definition accurate :: "math_lib \<Rightarrow> real \<Rightarrow> bool" where
  "accurate lib eps =
     (\<forall>t. finite_num (approx_cos lib t) \<and> \<bar>val (approx_cos lib t) - cos t\<bar> \<le> eps
        \<and> finite_num (approx_sin lib t) \<and> \<bar>val (approx_sin lib t) - sin t\<bar> \<le> eps)"

text \<open>A Number is finite and within \<open>tol\<close> of a real value.\<close>

definition near :: "real \<Rightarrow> jsnum \<Rightarrow> real \<Rightarrow> bool" where
  "near tol x v = (finite_num x \<and> \<bar>val x - v\<bar> \<le> tol)"

text \<open>
  The floating-point tolerance of one generated coordinate with center coordinate \<open>c\<close> and
  radius \<open>r\<close>: the error of the implementation's cosine or sine, the roundings to binary64
  and to binary32, the distance of \<^verbatim>\<open>Math.PI\<close> from \<open>\<pi>\<close>, and underflow.
\<close>

definition coordinate_tolerance :: "real \<Rightarrow> real \<Rightarrow> real \<Rightarrow> real" where
  "coordinate_tolerance eps c r = \<bar>r\<bar> * eps + (\<bar>c\<bar> + \<bar>r\<bar>) / 2 ^ 22 + \<bar>r\<bar> / 2 ^ 37 + 1 / 2 ^ 149"

section \<open>The shape table (geometry module)\<close>

text \<open>
  The three literal arrays of \<^verbatim>\<open>shapes\<close>, each \<^verbatim>\<open>new Float32Array([...])\<close> of decimal
  literals.
\<close>

definition triangle :: "jsnum list" where
  "triangle = map fround
                [Fin 0.0, Fin 0.5,
                 Fin (- 0.5), Fin (- 0.5),
                 Fin 0.5, Fin (- 0.5)]"

definition rectangle :: "jsnum list" where
  "rectangle = map fround
                 [Fin (- 0.5), Fin 0.5,
                  Fin (- 0.5), Fin (- 0.5),
                  Fin 0.5, Fin (- 0.5),
                  Fin (- 0.5), Fin 0.5,
                  Fin 0.5, Fin (- 0.5),
                  Fin 0.5, Fin 0.5]"

definition line :: "jsnum list" where
  "line = map fround
            [Fin (- 0.5), Fin 0.0,
             Fin 0.5, Fin 0.0]"

text \<open>
  The JavaScript values that occur: \<^verbatim>\<open>undefined\<close>, a \<^verbatim>\<open>Float32Array\<close>, a function (its
  name and its \<^verbatim>\<open>length\<close>), and any other object (by a name).
\<close>

datatype jsval =
    VUndefined
  | VFloat32Array "jsnum list"
  | VFunction string nat
  | VObject string

text \<open>
  \<^verbatim>\<open>shapes\<close> is an object literal: its own properties in source order, and
  \<^verbatim>\<open>Object.prototype\<close> as its prototype. The two generated arrays are computed with the
  \<^verbatim>\<open>Math\<close> of the implementation.
\<close>

definition shapes :: "math_lib \<Rightarrow> (string \<times> jsval) list" where
  "shapes lib =
     [(''triangle'', VFloat32Array triangle),
      (''rectangle'', VFloat32Array rectangle),
      (''circle'', VFloat32Array (generateCircleVertices lib (Fin 0.0) (Fin 0.0) (Fin 0.5) 50)),
      (''line'', VFloat32Array line),
      (''polygon'', VFloat32Array (generatePolygonVertices lib (Fin 0.0) (Fin 0.0) (Fin 0.5) 6))]"

text \<open>
  The properties every object literal inherits from \<^verbatim>\<open>Object.prototype\<close> (ECMAScript,
  with the accessors of its Annex B): functions, and \<^verbatim>\<open>__proto__\<close>, which yields the
  prototype object itself.
\<close>

definition Object_prototype :: "(string \<times> jsval) list" where
  "Object_prototype =
     [(''constructor'', VFunction ''Object'' 1),
      (''hasOwnProperty'', VFunction ''hasOwnProperty'' 1),
      (''isPrototypeOf'', VFunction ''isPrototypeOf'' 1),
      (''propertyIsEnumerable'', VFunction ''propertyIsEnumerable'' 1),
      (''toLocaleString'', VFunction ''toLocaleString'' 0),
      (''toString'', VFunction ''toString'' 0),
      (''valueOf'', VFunction ''valueOf'' 0),
      (''__defineGetter__'', VFunction ''__defineGetter__'' 2),
      (''__defineSetter__'', VFunction ''__defineSetter__'' 2),
      (''__lookupGetter__'', VFunction ''__lookupGetter__'' 1),
      (''__lookupSetter__'', VFunction ''__lookupSetter__'' 1),
      (''__proto__'', VObject ''Object.prototype'')]"

text \<open>
  The property read \<^verbatim>\<open>obj[name]\<close> on an object literal: an own property, else one
  inherited from \<^verbatim>\<open>Object.prototype\<close>, else \<^verbatim>\<open>undefined\<close>.
\<close>

definition get_property :: "(string \<times> jsval) list \<Rightarrow> string \<Rightarrow> jsval" where
  "get_property obj name =
     (case map_of obj name of
        Some v \<Rightarrow> v
      | None \<Rightarrow> (case map_of Object_prototype name of
                   Some v \<Rightarrow> v
                 | None \<Rightarrow> VUndefined))"

text \<open>The conversion to a boolean of \<^verbatim>\<open>!shapeVertices\<close>: every object is true.\<close>

fun truthy :: "jsval \<Rightarrow> bool" where
  "truthy VUndefined = False"
| "truthy _ = True"

text \<open>The property \<^verbatim>\<open>length\<close> as a Number (\<^verbatim>\<open>undefined\<close> becomes NaN in a division).\<close>

fun js_length :: "jsval \<Rightarrow> jsnum" where
  "js_length (VFloat32Array vs) = Fin (real (length vs))"
| "js_length (VFunction f k) = Fin (real k)"
| "js_length _ = NaN"

section \<open>The rendering bootstrap (main module): drawShape\<close>

text \<open>
  The graphics context is an external collaborator: a call of one of its methods is
  recorded, with its arguments, in the order it is issued. \<^verbatim>\<open>console.error\<close> appends to
  a log.
\<close>

datatype gl_enum =
    ARRAY_BUFFER | STATIC_DRAW | FLOAT | COLOR_BUFFER_BIT
  | TRIANGLES | TRIANGLE_FAN | LINES | LINE_LOOP

datatype gl_call =
    CreateBuffer
  | BindBuffer gl_enum nat
  | BufferData gl_enum jsval gl_enum
  | GetAttribLocation nat string
  | EnableVertexAttribArray jsval
  | VertexAttribPointer jsval nat gl_enum bool nat nat
  | ClearColor jsnum jsnum jsnum jsnum
  | Clear gl_enum
  | DrawArrays gl_enum nat jsnum

record world =
  gl_calls :: "gl_call list"
  console_errors :: "string list"

text \<open>
  What \<^verbatim>\<open>drawShape\<close> reads from outside: the \<^verbatim>\<open>Math\<close> with which the module \<^verbatim>\<open>shapes\<close> was
  evaluated, the module constant \<^verbatim>\<open>program\<close>, the buffer
  that \<^verbatim>\<open>gl.createBuffer()\<close> returns, the number that \<^verbatim>\<open>gl.getAttribLocation\<close> returns,
  and the global \<^verbatim>\<open>location\<close>. The module declares no \<^verbatim>\<open>location\<close>; it runs in a browser
  (its first statement reads \<^verbatim>\<open>document\<close>), where that identifier resolves to the
  property \<^verbatim>\<open>location\<close> of the global object.
\<close>

record browser =
  math :: math_lib
  program :: nat
  new_buffer :: nat
  attrib_location :: jsnum
  global_location :: jsval

definition console_error :: "string \<Rightarrow> world \<Rightarrow> world" where
  "console_error msg w = w\<lparr>console_errors := console_errors w @ [msg]\<rparr>"

definition gl_issue :: "gl_call \<Rightarrow> world \<Rightarrow> world" where
  "gl_issue c w = w\<lparr>gl_calls := gl_calls w @ [c]\<rparr>"

definition gl_createBuffer :: "browser \<Rightarrow> world \<Rightarrow> nat \<times> world" where
  "gl_createBuffer env w = (new_buffer env, gl_issue CreateBuffer w)"

definition gl_getAttribLocation :: "browser \<Rightarrow> nat \<Rightarrow> string \<Rightarrow> world \<Rightarrow> jsnum \<times> world" where
  "gl_getAttribLocation env prog name w =
     (attrib_location env, gl_issue (GetAttribLocation prog name) w)"

text \<open>
  \<^verbatim>\<open>drawShape(gl, shapeName)\<close>, statement by statement. \<^verbatim>\<open>aPositionLocation\<close> is bound and
  not read again; the two attribute calls receive \<^verbatim>\<open>location\<close>. The \<^verbatim>\<open>switch\<close> compares
  \<^verbatim>\<open>shapeName\<close> with the five string literals in order.
\<close>

definition drawShape :: "browser \<Rightarrow> string \<Rightarrow> world \<Rightarrow> world" where
  "drawShape env shapeName w0 =
     (let shapeVertices = get_property (shapes (math env)) shapeName in
      if \<not> truthy shapeVertices then
        console_error (''Shape '' @ [CHR 0x22] @ shapeName @ [CHR 0x22] @ '' not found!'') w0
      else
        (let (buffer, w1) = gl_createBuffer env w0;
             w2 = gl_issue (BindBuffer ARRAY_BUFFER buffer) w1;
             w3 = gl_issue (BufferData ARRAY_BUFFER shapeVertices STATIC_DRAW) w2;
             (aPositionLocation, w4) = gl_getAttribLocation env (program env) ''aPosition'' w3;
             w5 = gl_issue (EnableVertexAttribArray (global_location env)) w4;
             w6 = gl_issue (VertexAttribPointer (global_location env) 2 FLOAT False 0 0) w5;
             w7 = gl_issue (ClearColor (Fin 0.0) (Fin 0.0) (Fin 0.0) (Fin 1.0)) w6;
             w8 = gl_issue (Clear COLOR_BUFFER_BIT) w7
         in if shapeName = ''triangle'' \<or> shapeName = ''rectangle'' then
              gl_issue (DrawArrays TRIANGLES 0 (num_div (js_length shapeVertices) (Fin 2))) w8
            else if shapeName = ''circle'' then
              gl_issue (DrawArrays TRIANGLE_FAN 0 (num_div (js_length shapeVertices) (Fin 2))) w8
            else if shapeName = ''line'' then
              gl_issue (DrawArrays LINES 0 (num_div (js_length shapeVertices) (Fin 2))) w8
            else if shapeName = ''polygon'' then
              gl_issue (DrawArrays LINE_LOOP 0 (num_div (js_length shapeVertices) (Fin 2))) w8
            else console_error ''Unsupported shape type'' w8))"

text \<open>The draw calls among the recorded calls.\<close>

fun is_draw :: "gl_call \<Rightarrow> bool" where
  "is_draw (DrawArrays mode first count) = True"
| "is_draw _ = False"

definition draw_calls :: "world \<Rightarrow> gl_call list" where
  "draw_calls w = filter is_draw (gl_calls w)"

section \<open>Plane geometry for the fixed shapes\<close>

text \<open>A point of an array as a pair of reals, when both coordinates are finite.\<close>

fun real_point :: "jsnum \<times> jsnum \<Rightarrow> (real \<times> real) option" where
  "real_point (Fin x, Fin y) = Some (x, y)"
| "real_point _ = None"

text \<open>
  Twice the signed area of the triangle \<open>a b c\<close>: positive exactly when \<open>a, b, c\<close> wind
  counter-clockwise. A point lies in a counter-clockwise triangle when it is on the left
  of, or on, each of the three edges.
\<close>

definition cross :: "real \<times> real \<Rightarrow> real \<times> real \<Rightarrow> real \<times> real \<Rightarrow> real" where
  "cross a b c = (fst b - fst a) * (snd c - snd a) - (snd b - snd a) * (fst c - fst a)"

definition ccw :: "real \<times> real \<Rightarrow> real \<times> real \<Rightarrow> real \<times> real \<Rightarrow> bool" where
  "ccw a b c = (0 < cross a b c)"

definition in_triangle :: "real \<times> real \<Rightarrow> real \<times> real \<Rightarrow> real \<times> real \<Rightarrow> real \<times> real \<Rightarrow> bool" where
  "in_triangle a b c p = (0 \<le> cross a b p \<and> 0 \<le> cross b c p \<and> 0 \<le> cross c a p)"

text \<open>The square centered at the origin with half-extent \<open>h\<close>.\<close>

definition in_square :: "real \<Rightarrow> real \<times> real \<Rightarrow> bool" where
  "in_square h p = (\<bar>fst p\<bar> \<le> h \<and> \<bar>snd p\<bar> \<le> h)"

section \<open>Rounding\<close>

lemma pow2_powr: "pow2 k = 2 powr (real_of_int k)"
proof (cases "0 \<le> k")
  case True
  then have "2 powr (real_of_int k) = 2 powr (real (nat k))" by simp
  also have "\<dots> = 2 ^ nat k" by (simp add: powr_realpow)
  finally show ?thesis using True by (simp add: pow2_def)
next
  case False
  then have "2 powr (real_of_int k) = 2 powr (- real (nat (- k)))" by simp
  also have "\<dots> = 1 / 2 ^ nat (- k)" by (simp add: powr_minus powr_realpow divide_inverse)
  finally show ?thesis using False by (simp add: pow2_def)
qed

lemma pow2_pos [simp]: "0 < pow2 k"
  by (simp add: pow2_powr)

lemma pow2_nonzero [simp]: "pow2 k \<noteq> 0"
  using pow2_pos [of k] by (simp del: pow2_pos)

lemma pow2_add: "pow2 (a + b) = pow2 a * pow2 b"
  by (simp add: pow2_powr powr_add)

lemma rne_error: "\<bar>of_int (rne m) - m\<bar> \<le> 1 / 2"
  unfolding rne_def Let_def by (auto simp: abs_le_iff)

lemma rne_of_int [simp]: "rne (of_int k) = k"
  by (simp add: rne_def)

lemma expo_bounds:
  assumes "x \<noteq> 0"
  shows "pow2 \<lfloor>log 2 \<bar>x\<bar>\<rfloor> \<le> \<bar>x\<bar>" and "\<bar>x\<bar> < pow2 (\<lfloor>log 2 \<bar>x\<bar>\<rfloor> + 1)"
proof -
  have "0 < \<bar>x\<bar>" using assms by simp
  then have "2 powr \<lfloor>log 2 \<bar>x\<bar>\<rfloor> \<le> \<bar>x\<bar> \<and> \<bar>x\<bar> < 2 powr (\<lfloor>log 2 \<bar>x\<bar>\<rfloor> + 1)"
    using floor_log_eq_powr_iff [of "\<bar>x\<bar>" 2 "\<lfloor>log 2 \<bar>x\<bar>\<rfloor>"] by simp
  then show "pow2 \<lfloor>log 2 \<bar>x\<bar>\<rfloor> \<le> \<bar>x\<bar>" and "\<bar>x\<bar> < pow2 (\<lfloor>log 2 \<bar>x\<bar>\<rfloor> + 1)"
    by (simp_all add: pow2_powr)
qed

lemma expo_eq:
  assumes "pow2 k \<le> \<bar>x\<bar>" and "\<bar>x\<bar> < pow2 (k + 1)"
  shows "\<lfloor>log 2 \<bar>x\<bar>\<rfloor> = k"
proof -
  have "0 < \<bar>x\<bar>" using assms(1) pow2_pos [of k] by linarith
  then show ?thesis
    using floor_log_eq_powr_iff [of "\<bar>x\<bar>" 2 k] assms by (simp add: pow2_powr)
qed

text \<open>The rounding of \<open>x\<close> once its binade \<open>2\<^sup>k \<le> |x| < 2\<^sup>k\<^sup>+\<^sup>1\<close> is known.\<close>

lemma round_binary_at:
  assumes "pow2 k \<le> \<bar>x\<bar>" and "\<bar>x\<bar> < pow2 (k + 1)"
  shows "round_binary p emin x
         = of_int (rne (x / pow2 (max (k - (int p - 1)) emin)))
           * pow2 (max (k - (int p - 1)) emin)"
proof -
  have "0 < \<bar>x\<bar>" using assms(1) pow2_pos [of k] by linarith
  then have "x \<noteq> 0" by auto
  then show ?thesis
    by (simp add: round_binary_def expo_eq [OF assms] Let_def)
qed

text \<open>A multiple of the spacing is kept as it is.\<close>

lemma round_binary_exact:
  assumes "pow2 k \<le> \<bar>x\<bar>" and "\<bar>x\<bar> < pow2 (k + 1)"
    and "x / pow2 (max (k - (int p - 1)) emin) = of_int m"
  shows "round_binary p emin x = x"
proof -
  have "round_binary p emin x = of_int m * pow2 (max (k - (int p - 1)) emin)"
    by (simp add: round_binary_at [OF assms(1,2)] assms(3))
  also have "\<dots> = x / pow2 (max (k - (int p - 1)) emin) * pow2 (max (k - (int p - 1)) emin)"
    by (simp only: assms(3))
  also have "\<dots> = x" by simp
  finally show ?thesis .
qed

text \<open>The error of a rounding: half a unit in the last place, or half the smallest value.\<close>

lemma round_binary_error:
  "\<bar>round_binary p emin x - x\<bar> \<le> \<bar>x\<bar> / 2 ^ p + pow2 emin / 2"
proof (cases "x = 0")
  case True
  then show ?thesis by (simp add: round_binary_def less_imp_le)
next
  case False
  define e where "e = \<lfloor>log 2 \<bar>x\<bar>\<rfloor>"
  define q where "q = pow2 (max (e - (int p - 1)) emin)"
  have qpos: "0 < q" by (simp add: q_def)
  have y: "round_binary p emin x = of_int (rne (x / q)) * q"
    using False by (simp add: round_binary_def e_def q_def Let_def)
  have "\<bar>of_int (rne (x / q)) * q - x\<bar> = \<bar>of_int (rne (x / q)) - x / q\<bar> * q"
  proof -
    have "of_int (rne (x / q)) * q - x = (of_int (rne (x / q)) - x / q) * q"
      using qpos by (simp add: field_simps)
    then show ?thesis using qpos by (simp add: abs_mult)
  qed
  also have "\<dots> \<le> (1 / 2) * q"
    using rne_error [of "x / q"] qpos by (intro mult_right_mono) simp_all
  finally have err: "\<bar>round_binary p emin x - x\<bar> \<le> q / 2" by (simp add: y)
  have "q \<le> \<bar>x\<bar> * 2 / 2 ^ p + pow2 emin"
  proof (cases "e - (int p - 1) \<le> emin")
    case True
    then have "q = pow2 emin" by (simp add: q_def max_def)
    moreover have "0 \<le> \<bar>x\<bar> * 2 / 2 ^ p" by simp
    ultimately show ?thesis by linarith
  next
    case False
    then have "q = pow2 (e + (1 - int p))" by (simp add: q_def max_def algebra_simps)
    also have "\<dots> = pow2 e * pow2 (1 - int p)" by (rule pow2_add)
    also have "pow2 (1 - int p) = 2 / 2 ^ p"
    proof (cases p)
      case 0 then show ?thesis by (simp add: pow2_def)
    next
      case (Suc n)
      then have "pow2 (1 - int p) = 1 / 2 ^ n" by (simp add: pow2_def)
      then show ?thesis using Suc by simp
    qed
    finally have "q = pow2 e * 2 / 2 ^ p" by simp
    moreover have "pow2 e \<le> \<bar>x\<bar>" unfolding e_def using \<open>x \<noteq> 0\<close> by (rule expo_bounds)
    then have "pow2 e * 2 / 2 ^ p \<le> \<bar>x\<bar> * 2 / 2 ^ p"
      by (simp add: divide_right_mono)
    moreover have "0 < pow2 emin" by simp
    ultimately show ?thesis by linarith
  qed
  then have "q / 2 \<le> (\<bar>x\<bar> * 2 / 2 ^ p + pow2 emin) / 2" by simp
  also have "\<dots> = \<bar>x\<bar> / 2 ^ p + pow2 emin / 2" by (simp add: field_simps)
  finally show ?thesis using err by linarith
qed

lemma to_format_not_NaN [simp]: "to_format p emin emax neg x \<noteq> NaN"
  by (simp add: to_format_def Let_def signed_inf_def signed_zero_def)

lemma rnd64_not_NaN [simp]: "rnd64 neg x \<noteq> NaN"
  by (simp add: rnd64_def)

lemma to_format_zero [simp]: "to_format p emin emax neg 0 = signed_zero neg"
proof -
  have "\<not> (2::real) ^ emax \<le> 0" by (simp add: not_le)
  then show ?thesis by (simp add: to_format_def round_binary_def)
qed

text \<open>A value of the format is kept: small integers and binary fractions in particular.\<close>

lemma to_format_exact:
  assumes "pow2 k \<le> \<bar>x\<bar>" and "\<bar>x\<bar> < pow2 (k + 1)"
    and "x / pow2 (max (k - (int p - 1)) emin) = of_int m"
    and "\<bar>x\<bar> < 2 ^ emax"
  shows "to_format p emin emax neg x = Fin x"
proof -
  have "0 < \<bar>x\<bar>" using assms(1) pow2_pos [of k] by linarith
  then have "x \<noteq> 0" by auto
  then show ?thesis
    using assms(4) by (simp add: to_format_def round_binary_exact [OF assms(1-3)])
qed

lemmas rnd64_exact = to_format_exact [where p = 53 and emin = "- 1074" and emax = 1024,
    folded rnd64_def]

lemmas rnd32_exact = to_format_exact [where p = 24 and emin = "- 149" and emax = 128,
    folded rnd32_def]

declare fround.simps(1) [simp del]

lemma fround_half [simp]: "fround (Fin (1 / 2)) = Fin (1 / 2)"
proof -
  have "rnd32 False (1 / 2) = Fin (1 / 2)"
    by (rule rnd32_exact [where k = "- 1" and m = "2 ^ 23"]) (simp_all add: pow2_def)
  then show ?thesis by (simp add: fround.simps(1))
qed

lemma fround_minus_half [simp]: "fround (Fin (- (1 / 2))) = Fin (- (1 / 2))"
proof -
  have "rnd32 True (- (1 / 2)) = Fin (- (1 / 2))"
    by (rule rnd32_exact [where k = "- 1" and m = "- (2 ^ 23)"]) (simp_all add: pow2_def)
  then show ?thesis by (simp add: fround.simps(1))
qed

lemma fround_zero [simp]: "fround (Fin 0) = Fin 0"
  by (simp add: fround.simps(1) rnd32_def signed_zero_def)

lemma fround_one [simp]: "fround (Fin 1) = Fin 1"
proof -
  have "rnd32 False 1 = Fin 1"
    by (rule rnd32_exact [where k = 0 and m = "2 ^ 23"]) (simp_all add: pow2_def)
  then show ?thesis by (simp add: fround.simps(1))
qed

lemma two_pi_double: "num_mul Math_PI (Fin 2) = Fin (884279719003555 / 2 ^ 47)"
proof -
  have "rnd64 False (884279719003555 / 2 ^ 47) = Fin (884279719003555 / 2 ^ 47)"
    by (rule rnd64_exact [where k = 2 and m = "884279719003555 * 2 ^ 3"])
      (simp_all add: pow2_def)
  then show ?thesis by (simp add: num_mul_def Math_PI_def)
qed

lemma num_of_int_zero [simp]: "num_of_int 0 = Fin 0"
  by (simp add: num_of_int_def rnd64_def signed_zero_def)


lemma num_mul_NaN_right [simp]: "num_mul a NaN = NaN"
  by (simp add: num_mul_def)

lemma num_add_NaN_right [simp]: "num_add a NaN = NaN"
  by (simp add: num_add_def)

section \<open>Error bounds of the operations\<close>

lemma pow2_le_one: "emin \<le> 0 \<Longrightarrow> pow2 emin \<le> 1"
  by (simp add: pow2_def divide_le_eq)

lemma div_pow_le: "\<bar>x\<bar> / 2 ^ p \<le> \<bar>x::real\<bar>"
proof -
  have "1 \<le> (2::real) ^ p" by simp
  then have "\<bar>x\<bar> / 2 ^ p \<le> \<bar>x\<bar> / 1" by (intro divide_left_mono) simp_all
  then show ?thesis by simp
qed

lemma finite_zero_iff: "finite_num a \<Longrightarrow> is_zero a = (val a = 0)"
  by (cases a) simp_all

lemma finite_not_special: "finite_num a \<Longrightarrow> a \<noteq> NaN \<and> \<not> is_inf a"
  by (cases a) simp_all

lemma val_signed_zero [simp]: "val (signed_zero neg) = 0"
  by (simp add: signed_zero_def)

lemma finite_signed_zero [simp]: "finite_num (signed_zero neg)"
  by (simp add: signed_zero_def)

lemma to_format_bounded:
  assumes "\<bar>x\<bar> \<le> 2 ^ 120" and "122 \<le> emax" and "emin \<le> 0"
  shows "finite_num (to_format p emin emax neg x)"
    and "val (to_format p emin emax neg x) = round_binary p emin x"
proof -
  have e: "\<bar>round_binary p emin x - x\<bar> \<le> \<bar>x\<bar> / 2 ^ p + pow2 emin / 2"
    by (rule round_binary_error)
  have "\<bar>round_binary p emin x\<bar> \<le> 2 * \<bar>x\<bar> + 1 / 2"
    using e div_pow_le [of x p] pow2_le_one [OF assms(3)] by linarith
  also have "\<dots> < 2 ^ 122" using assms(1) by simp
  also have "(2::real) ^ 122 \<le> 2 ^ emax" using assms(2) by (intro power_increasing) simp_all
  finally have small: "\<not> 2 ^ emax \<le> \<bar>round_binary p emin x\<bar>" by simp
  show "finite_num (to_format p emin emax neg x)"
    using small by (simp add: to_format_def Let_def)
  show "val (to_format p emin emax neg x) = round_binary p emin x"
    using small by (simp add: to_format_def Let_def)
qed

text \<open>Unit roundoff and underflow terms of the two formats.\<close>

lemma rnd64_bounded:
  assumes "\<bar>x\<bar> \<le> 2 ^ 120"
  shows "finite_num (rnd64 neg x)"
    and "\<bar>val (rnd64 neg x) - x\<bar> \<le> \<bar>x\<bar> / 2 ^ 53 + 1 / 2 ^ 200"
proof -
  show "finite_num (rnd64 neg x)"
    unfolding rnd64_def by (rule to_format_bounded(1) [OF assms]) simp_all
  have "val (rnd64 neg x) = round_binary 53 (- 1074) x"
    unfolding rnd64_def by (rule to_format_bounded(2) [OF assms]) simp_all
  moreover have "pow2 (- 1074) / 2 \<le> 1 / 2 ^ 200" by (simp add: pow2_def)
  ultimately show "\<bar>val (rnd64 neg x) - x\<bar> \<le> \<bar>x\<bar> / 2 ^ 53 + 1 / 2 ^ 200"
    using round_binary_error [of 53 "- 1074" x] by (simp; linarith)
qed

lemma rnd32_bounded:
  assumes "\<bar>x\<bar> \<le> 2 ^ 120"
  shows "finite_num (rnd32 neg x)"
    and "\<bar>val (rnd32 neg x) - x\<bar> \<le> \<bar>x\<bar> / 2 ^ 24 + 1 / 2 ^ 150"
proof -
  show "finite_num (rnd32 neg x)"
    unfolding rnd32_def by (rule to_format_bounded(1) [OF assms]) simp_all
  have "val (rnd32 neg x) = round_binary 24 (- 149) x"
    unfolding rnd32_def by (rule to_format_bounded(2) [OF assms]) simp_all
  moreover have "pow2 (- 149) / 2 = 1 / 2 ^ 150" by (simp add: pow2_def)
  ultimately show "\<bar>val (rnd32 neg x) - x\<bar> \<le> \<bar>x\<bar> / 2 ^ 24 + 1 / 2 ^ 150"
    using round_binary_error [of 24 "- 149" x] by simp
qed

lemma num_mul_bounded:
  assumes "finite_num a" and "finite_num b" and "\<bar>val a * val b\<bar> \<le> 2 ^ 120"
  shows "finite_num (num_mul a b)"
    and "\<bar>val (num_mul a b) - val a * val b\<bar> \<le> \<bar>val a * val b\<bar> / 2 ^ 53 + 1 / 2 ^ 200"
proof -
  have "num_mul a b = rnd64 (negative a \<noteq> negative b) (val a * val b)"
    using finite_not_special [OF assms(1)] finite_not_special [OF assms(2)]
    by (simp add: num_mul_def)
  then show "finite_num (num_mul a b)"
    and "\<bar>val (num_mul a b) - val a * val b\<bar> \<le> \<bar>val a * val b\<bar> / 2 ^ 53 + 1 / 2 ^ 200"
    using rnd64_bounded [OF assms(3)] by simp_all
qed

lemma num_add_bounded:
  assumes "finite_num a" and "finite_num b" and "\<bar>val a + val b\<bar> \<le> 2 ^ 120"
  shows "finite_num (num_add a b)"
    and "\<bar>val (num_add a b) - (val a + val b)\<bar> \<le> \<bar>val a + val b\<bar> / 2 ^ 53 + 1 / 2 ^ 200"
proof -
  have eq: "num_add a b = (if val a + val b = 0 then signed_zero (negative a \<and> negative b)
                       else rnd64 (val a + val b < 0) (val a + val b))"
    using finite_not_special [OF assms(1)] finite_not_special [OF assms(2)]
    by (simp add: num_add_def Let_def)
  show "finite_num (num_add a b)"
    using rnd64_bounded(1) [OF assms(3)] by (simp add: eq)
  show "\<bar>val (num_add a b) - (val a + val b)\<bar> \<le> \<bar>val a + val b\<bar> / 2 ^ 53 + 1 / 2 ^ 200"
    using rnd64_bounded(2) [OF assms(3)] by (simp add: eq)
qed

lemma num_div_bounded:
  assumes "finite_num a" and "finite_num b" and "val b \<noteq> 0" and "\<bar>val a / val b\<bar> \<le> 2 ^ 120"
  shows "finite_num (num_div a b)"
    and "\<bar>val (num_div a b) - val a / val b\<bar> \<le> \<bar>val a / val b\<bar> / 2 ^ 53 + 1 / 2 ^ 200"
proof -
  have "num_div a b = rnd64 (negative a \<noteq> negative b) (val a / val b)"
    using finite_not_special [OF assms(1)] finite_not_special [OF assms(2)]
      finite_zero_iff [OF assms(2)] assms(3)
    by (simp add: num_div_def)
  then show "finite_num (num_div a b)"
    and "\<bar>val (num_div a b) - val a / val b\<bar> \<le> \<bar>val a / val b\<bar> / 2 ^ 53 + 1 / 2 ^ 200"
    using rnd64_bounded [OF assms(4)] by simp_all
qed

lemma fround_bounded:
  assumes "finite_num a" and "\<bar>val a\<bar> \<le> 2 ^ 120"
  shows "finite_num (fround a)"
    and "\<bar>val (fround a) - val a\<bar> \<le> \<bar>val a\<bar> / 2 ^ 24 + 1 / 2 ^ 150"
proof -
  show "finite_num (fround a)"
    using assms rnd32_bounded(1) [of "val a"] by (cases a) (simp_all add: fround.simps(1))
  show "\<bar>val (fround a) - val a\<bar> \<le> \<bar>val a\<bar> / 2 ^ 24 + 1 / 2 ^ 150"
    using assms rnd32_bounded(2) [of "val a"] by (cases a) (simp_all add: fround.simps(1))
qed

lemma num_of_int_bounded:
  assumes "\<bar>k\<bar> \<le> 2 ^ 53"
  shows "finite_num (num_of_int k)"
    and "\<bar>val (num_of_int k) - of_int k\<bar> \<le> \<bar>of_int k\<bar> / 2 ^ 53 + 1 / 2 ^ 200"
proof -
  have "\<bar>real_of_int k\<bar> \<le> 2 ^ 53" using assms by (metis of_int_abs of_int_le_iff of_int_numeral of_int_power)
  then have b: "\<bar>real_of_int k\<bar> \<le> 2 ^ 120" by simp
  show "finite_num (num_of_int k)"
    unfolding num_of_int_def by (rule rnd64_bounded(1) [OF b])
  show "\<bar>val (num_of_int k) - of_int k\<bar> \<le> \<bar>of_int k\<bar> / 2 ^ 53 + 1 / 2 ^ 200"
    unfolding num_of_int_def by (rule rnd64_bounded(2) [OF b])
qed

lemma Math_cos_accurate:
  assumes "accurate lib eps" and "0 \<le> eps" and "finite_num a"
  shows "finite_num (Math_cos lib a)" and "\<bar>val (Math_cos lib a) - cos (val a)\<bar> \<le> eps"
  using assms by (cases a; simp add: accurate_def)+

lemma Math_sin_accurate:
  assumes "accurate lib eps" and "0 \<le> eps" and "finite_num a"
  shows "finite_num (Math_sin lib a)" and "\<bar>val (Math_sin lib a) - sin (val a)\<bar> \<le> eps"
  using assms by (cases a; simp add: accurate_def)+


lemma error_budget:
  fixes eF :: real
  assumes "eF \<le> x0 / 2 ^ 24 + 1 / 2 ^ 150"
    "eX \<le> aM / 2 ^ 53 + 1 / 2 ^ 200"
    "eM \<le> pT / 2 ^ 53 + 1 / 2 ^ 200"
    "dz \<le> z"
    "pT \<le> 2 * Rr"
    "aM \<le> A + 5 / 2 * Rr + 1 / 2 ^ 200"
    "x0 \<le> 2 * A + 3 * Rr + 1 / 2 ^ 190"
    "0 \<le> A" "0 \<le> Rr"
  shows "eF + eX + eM + dz \<le> z + (A + Rr) / 2 ^ 22 + 1 / 2 ^ 149"
proof -
  have 1: "x0 / 2 ^ 24 \<le> (2 * A + 3 * Rr + 1 / 2 ^ 190) / 2 ^ 24"
    using assms(7) by (intro divide_right_mono) simp_all
  have 2: "aM / 2 ^ 53 \<le> (A + 5 / 2 * Rr + 1 / 2 ^ 200) / 2 ^ 53"
    using assms(6) by (intro divide_right_mono) simp_all
  have 3: "pT / 2 ^ 53 \<le> (2 * Rr) / 2 ^ 53"
    using assms(5) by (intro divide_right_mono) simp_all
  have "eF + eX + eM + dz \<le> (2 * A + 3 * Rr + 1 / 2 ^ 190) / 2 ^ 24 + 1 / 2 ^ 150
        + (A + 5 / 2 * Rr + 1 / 2 ^ 200) / 2 ^ 53 + 1 / 2 ^ 200 + (2 * Rr) / 2 ^ 53 + 1 / 2 ^ 200 + z"
    using assms(1-4) 1 2 3 by linarith
  also have "\<dots> \<le> z + (A + Rr) / 2 ^ 22 + 1 / 2 ^ 149"
    using assms(8,9) by (simp add: field_simps)
  finally show ?thesis .
qed


lemma coordinate_error:
  assumes c0: "finite_num c0" and rad: "finite_num radius" and tr: "finite_num tr"
    and acc: "\<bar>val tr - w\<bar> \<le> eps" and w: "\<bar>w\<bar> \<le> 1" and eps: "0 \<le> eps" "eps \<le> 1"
    and A: "\<bar>val c0\<bar> \<le> 2 ^ 100" and R: "\<bar>val radius\<bar> \<le> 2 ^ 100"
  shows "finite_num (fround (num_add c0 (num_mul radius tr)))"
    and "\<bar>val (fround (num_add c0 (num_mul radius tr))) - (val c0 + val radius * w)\<bar>
         \<le> \<bar>val radius\<bar> * eps + (\<bar>val c0\<bar> + \<bar>val radius\<bar>) / 2 ^ 22 + 1 / 2 ^ 149"
proof -
  define a where "a = val c0"
  define \<rho> where "\<rho> = val radius"
  define T where "T = val tr"
  define M where "M = val (num_mul radius tr)"
  define X0 where "X0 = val (num_add c0 (num_mul radius tr))"
  define X where "X = val (fround (num_add c0 (num_mul radius tr)))"
  define A where "A = \<bar>a\<bar>"
  define Rr where "Rr = \<bar>\<rho>\<bar>"
  define z where "z = Rr * eps"
  define pT where "pT = \<bar>\<rho> * T\<bar>"
  define eM where "eM = \<bar>M - \<rho> * T\<bar>"
  define aM where "aM = \<bar>a + M\<bar>"
  define eX where "eX = \<bar>X0 - (a + M)\<bar>"
  define eF where "eF = \<bar>X - X0\<bar>"
  define dz where "dz = \<bar>\<rho> * T - \<rho> * w\<bar>"
  have Tb: "\<bar>T\<bar> \<le> 2" using acc w eps unfolding T_def by linarith
  have A0: "0 \<le> A" and R0: "0 \<le> Rr" by (simp_all add: A_def Rr_def)
  have A': "A \<le> 2 ^ 100" and R': "Rr \<le> 2 ^ 100"
    using assms(8,9) by (simp_all add: A_def Rr_def a_def \<rho>_def)
  have prod: "pT \<le> 2 * Rr"
  proof -
    have "\<bar>\<rho> * T\<bar> = \<bar>\<rho>\<bar> * \<bar>T\<bar>" by (rule abs_mult)
    also have "\<dots> \<le> \<bar>\<rho>\<bar> * 2" using Tb by (intro mult_left_mono) simp_all
    finally show ?thesis by (simp add: pT_def Rr_def)
  qed
  have diff: "dz \<le> z"
  proof -
    have "\<bar>\<rho> * T - \<rho> * w\<bar> = \<bar>\<rho>\<bar> * \<bar>T - w\<bar>"
      by (simp add: abs_mult flip: right_diff_distrib)
    also have "\<dots> \<le> \<bar>\<rho>\<bar> * eps" using acc unfolding T_def by (intro mult_left_mono) simp_all
    finally show ?thesis by (simp add: z_def dz_def Rr_def)
  qed
  have b1: "\<bar>val radius * val tr\<bar> \<le> 2 ^ 120"
  proof -
    have "pT \<le> 2 * 2 ^ 100" using prod R' by (simp; linarith)
    also have "\<dots> \<le> (2::real) ^ 120" by simp
    finally show ?thesis by (simp add: pT_def \<rho>_def T_def)
  qed
  have m_fin: "finite_num (num_mul radius tr)"
    by (rule num_mul_bounded(1) [OF rad tr b1])
  have m_err: "eM \<le> pT / 2 ^ 53 + 1 / 2 ^ 200"
    unfolding eM_def pT_def M_def \<rho>_def T_def by (rule num_mul_bounded(2) [OF rad tr b1])
  have Mtri: "\<bar>M\<bar> \<le> eM + pT" unfolding eM_def pT_def by linarith
  have aMtri: "aM \<le> A + \<bar>M\<bar>" unfolding aM_def A_def by linarith
  have aMb: "aM \<le> A + 5 / 2 * Rr + 1 / 2 ^ 200"
    using aMtri Mtri m_err prod R0 by (simp; linarith)
  have b2: "\<bar>val c0 + val (num_mul radius tr)\<bar> \<le> 2 ^ 120"
  proof -
    have "aM \<le> 2 ^ 100 + 3 * 2 ^ 100 + 1 / 2 ^ 200" using aMb A' R' by (simp; linarith)
    also have "\<dots> \<le> (2::real) ^ 120" by simp
    finally show ?thesis by (simp add: aM_def a_def M_def)
  qed
  have x_fin: "finite_num (num_add c0 (num_mul radius tr))"
    by (rule num_add_bounded(1) [OF c0 m_fin b2])
  have x_err: "eX \<le> aM / 2 ^ 53 + 1 / 2 ^ 200"
    unfolding eX_def aM_def X0_def a_def M_def by (rule num_add_bounded(2) [OF c0 m_fin b2])
  have X0tri: "\<bar>X0\<bar> \<le> eX + aM" unfolding eX_def aM_def by linarith
  have X0b: "\<bar>X0\<bar> \<le> 2 * A + 3 * Rr + 1 / 2 ^ 190"
    using X0tri x_err aMb A0 R0 by (simp; linarith)
  have b3: "\<bar>val (num_add c0 (num_mul radius tr))\<bar> \<le> 2 ^ 120"
  proof -
    have "\<bar>X0\<bar> \<le> 2 * 2 ^ 100 + 4 * 2 ^ 100 + 1 / 2 ^ 190" using X0b A' R' by (simp; linarith)
    also have "\<dots> \<le> (2::real) ^ 120" by simp
    finally show ?thesis by (simp add: X0_def)
  qed
  show "finite_num (fround (num_add c0 (num_mul radius tr)))"
    by (rule fround_bounded(1) [OF x_fin b3])
  have f_err: "eF \<le> \<bar>X0\<bar> / 2 ^ 24 + 1 / 2 ^ 150"
    unfolding eF_def X_def X0_def by (rule fround_bounded(2) [OF x_fin b3])
  have total: "\<bar>X - (a + \<rho> * w)\<bar> \<le> eF + eX + eM + dz"
    unfolding eF_def eX_def eM_def dz_def by linarith
  have "eF + eX + eM + dz \<le> z + (A + Rr) / 2 ^ 22 + 1 / 2 ^ 149"
    by (rule error_budget [OF f_err x_err m_err diff prod aMb X0b A0 R0])
  with total have "\<bar>X - (a + \<rho> * w)\<bar> \<le> z + (A + Rr) / 2 ^ 22 + 1 / 2 ^ 149" by linarith
  then show "\<bar>val (fround (num_add c0 (num_mul radius tr))) - (val c0 + val radius * w)\<bar>
         \<le> \<bar>val radius\<bar> * eps + (\<bar>val c0\<bar> + \<bar>val radius\<bar>) / 2 ^ 22 + 1 / 2 ^ 149"
    by (simp add: X_def a_def \<rho>_def z_def A_def Rr_def)
qed

lemma distance_error:
  assumes "0 \<le> r"
    and "\<bar>x - (a + r * cos t)\<bar> \<le> e1" and "\<bar>y - (b + r * sin t)\<bar> \<le> e2"
  shows "\<bar>sqrt ((x - a)\<^sup>2 + (y - b)\<^sup>2) - r\<bar> \<le> e1 + e2"
proof -
  define p where "p = r * cos t"
  define q where "q = r * sin t"
  define d1 where "d1 = x - a - p"
  define d2 where "d2 = y - b - q"
  have norm: "sqrt (p\<^sup>2 + q\<^sup>2) = r"
  proof -
    have "p\<^sup>2 + q\<^sup>2 = r\<^sup>2 * ((cos t)\<^sup>2 + (sin t)\<^sup>2)"
      by (simp only: p_def q_def power_mult_distrib distrib_left)
    also have "\<dots> = r\<^sup>2" by simp
    finally show ?thesis using assms(1) by simp
  qed
  have small: "sqrt (d1\<^sup>2 + d2\<^sup>2) \<le> e1 + e2"
  proof -
    have "sqrt (d1\<^sup>2 + d2\<^sup>2) \<le> \<bar>d1\<bar> + \<bar>d2\<bar>" by (rule sqrt_sum_squares_le_sum_abs)
    moreover have "\<bar>d1\<bar> \<le> e1" using assms(2) by (simp add: d1_def p_def algebra_simps)
    moreover have "\<bar>d2\<bar> \<le> e2" using assms(3) by (simp add: d2_def q_def algebra_simps)
    ultimately show ?thesis by linarith
  qed
  have up: "sqrt ((p + d1)\<^sup>2 + (q + d2)\<^sup>2) \<le> sqrt (p\<^sup>2 + q\<^sup>2) + sqrt (d1\<^sup>2 + d2\<^sup>2)"
    by (rule real_sqrt_sum_squares_triangle_ineq)
  have "sqrt (((p + d1) + (- d1))\<^sup>2 + ((q + d2) + (- d2))\<^sup>2)
        \<le> sqrt ((p + d1)\<^sup>2 + (q + d2)\<^sup>2) + sqrt ((- d1)\<^sup>2 + (- d2)\<^sup>2)"
    by (rule real_sqrt_sum_squares_triangle_ineq)
  then have down: "sqrt (p\<^sup>2 + q\<^sup>2) \<le> sqrt ((p + d1)\<^sup>2 + (q + d2)\<^sup>2) + sqrt (d1\<^sup>2 + d2\<^sup>2)"
    by simp
  have "x - a = p + d1" and "y - b = q + d2" by (simp_all add: d1_def d2_def)
  then show ?thesis using up down small norm by simp
qed

lemma two_pi_val: "val (num_mul Math_PI (Fin 2)) = 884279719003555 / 2 ^ 47"
  by (simp add: two_pi_double)

lemma angle_step_bounded:
  assumes "3 \<le> n" and "n \<le> 2 ^ 53"
  shows "finite_num (angle_step n)" and "\<bar>val (angle_step n)\<bar> \<le> 4"
proof -
  define N where "N = val (num_of_int n)"
  define P :: real where "P = 884279719003555 / 2 ^ 47"
  have nb: "\<bar>n\<bar> \<le> 2 ^ 53" using assms by simp
  have n_fin: "finite_num (num_of_int n)" by (rule num_of_int_bounded(1) [OF nb])
  have n_err: "\<bar>N - of_int n\<bar> \<le> \<bar>of_int n\<bar> / 2 ^ 53 + 1 / 2 ^ 200"
    unfolding N_def by (rule num_of_int_bounded(2) [OF nb])
  have n3: "3 \<le> real_of_int n" using assms(1) by simp
  have N2: "2 \<le> N" using n_err n3 by (simp; linarith)
  have P_pos: "0 < P" and P7: "P \<le> 7" by (simp_all add: P_def)
  have quot: "\<bar>P / N\<bar> \<le> 7 / 2"
  proof -
    have le: "P / N \<le> P / 2" using N2 P_pos by (intro divide_left_mono) simp_all
    have nonneg: "0 \<le> P / N" using N2 P_pos by simp
    then have "\<bar>P / N\<bar> = P / N" by (rule abs_of_nonneg)
    then show ?thesis using le P7 by linarith
  qed
  have p_fin: "finite_num (num_mul Math_PI (Fin 2))" by (simp add: two_pi_double)
  have pv: "val (num_mul Math_PI (Fin 2)) = P" by (simp add: two_pi_double P_def)
  have nz: "val (num_of_int n) \<noteq> 0" using N2 by (simp add: N_def)
  have qb: "\<bar>val (num_mul Math_PI (Fin 2)) / val (num_of_int n)\<bar> \<le> 2 ^ 120"
  proof -
    have "\<bar>val (num_mul Math_PI (Fin 2)) / val (num_of_int n)\<bar> = \<bar>P / N\<bar>"
      by (simp only: pv N_def)
    also have "\<dots> \<le> 7 / 2" by (rule quot)
    also have "(7 / 2 :: real) \<le> 2 ^ 120" by simp
    finally show ?thesis .
  qed
  show "finite_num (angle_step n)"
    unfolding angle_step_def by (rule num_div_bounded(1) [OF p_fin n_fin nz qb])
  have "\<bar>val (angle_step n) - P / N\<bar> \<le> \<bar>P / N\<bar> / 2 ^ 53 + 1 / 2 ^ 200"
    using num_div_bounded(2) [OF p_fin n_fin nz qb] by (simp add: angle_step_def pv N_def)
  then show "\<bar>val (angle_step n)\<bar> \<le> 4" using quot by (simp; linarith)
qed

lemma angle_finite:
  assumes "3 \<le> n" and "n \<le> 2 ^ 53" and "0 \<le> i" and "i \<le> n"
  shows "finite_num (num_mul (num_of_int i) (angle_step n))"
proof -
  have ib: "\<bar>i\<bar> \<le> 2 ^ 53" using assms by simp
  have i_fin: "finite_num (num_of_int i)" by (rule num_of_int_bounded(1) [OF ib])
  have "\<bar>real_of_int i\<bar> \<le> 2 ^ 53"
    using ib by (metis of_int_abs of_int_le_iff of_int_numeral of_int_power)
  then have I: "\<bar>val (num_of_int i)\<bar> \<le> 2 ^ 54"
    using num_of_int_bounded(2) [OF ib] by (simp; linarith)
  have "\<bar>val (num_of_int i) * val (angle_step n)\<bar>
        = \<bar>val (num_of_int i)\<bar> * \<bar>val (angle_step n)\<bar>" by (rule abs_mult)
  also have "\<dots> \<le> 2 ^ 54 * 4"
    using I angle_step_bounded(2) [OF assms(1,2)] by (intro mult_mono) simp_all
  finally have "\<bar>val (num_of_int i) * val (angle_step n)\<bar> \<le> 2 ^ 120" by simp
  then show ?thesis
    by (rule num_mul_bounded(1) [OF i_fin angle_step_bounded(1) [OF assms(1,2)]])
qed

section \<open>Bounds on \<open>\<pi>\<close> and on the angles\<close>

lemma arctan_bounds:
  assumes "0 < x" and "x \<le> 1"
  shows "(\<Sum>k<2 * n. (- 1) ^ k * (1 / real (k * 2 + 1) * x ^ (k * 2 + 1))) \<le> arctan x"
    and "arctan x \<le> (\<Sum>k<2 * n + 1. (- 1) ^ k * (1 / real (k * 2 + 1) * x ^ (k * 2 + 1)))"
proof -
  have ax: "\<bar>x\<bar> \<le> 1" using assms by simp
  have pos: "0 < 1 / real (0 * 2 + 1) * x ^ (0 * 2 + 1)" using assms by simp
  have "(\<Sum>k. (- 1) ^ k * (1 / real (k * 2 + 1) * x ^ (k * 2 + 1)))
        \<in> {\<Sum>k<2 * n. (- 1) ^ k * (1 / real (k * 2 + 1) * x ^ (k * 2 + 1)) ..
            \<Sum>k<2 * n + 1. (- 1) ^ k * (1 / real (k * 2 + 1) * x ^ (k * 2 + 1))}"
    using summable_Leibniz(2) [OF zeroseq_arctan_series [OF ax] monoseq_arctan_series [OF ax]] pos
    by blast
  then show "(\<Sum>k<2 * n. (- 1) ^ k * (1 / real (k * 2 + 1) * x ^ (k * 2 + 1))) \<le> arctan x"
    and "arctan x \<le> (\<Sum>k<2 * n + 1. (- 1) ^ k * (1 / real (k * 2 + 1) * x ^ (k * 2 + 1)))"
    by (simp_all add: arctan_series [OF ax])
qed

lemma pi_lower: "884279719003555 / 2 ^ 48 + 1 / 2 ^ 54 < pi"
proof -
  have a: "(\<Sum>k<2 * 6. (- 1) ^ k * (1 / real (k * 2 + 1) * (1 / 5) ^ (k * 2 + 1))) \<le> arctan (1 / 5)"
    by (rule arctan_bounds(1)) simp_all
  have b: "arctan (1 / 239)
           \<le> (\<Sum>k<2 * 1 + 1. (- 1) ^ k * (1 / real (k * 2 + 1) * (1 / 239) ^ (k * 2 + 1)))"
    by (rule arctan_bounds(2)) simp_all
  have "pi = 16 * arctan (1 / 5) - 4 * arctan (1 / 239)" using machin by simp
  moreover have "884279719003555 / 2 ^ 48 + 1 / 2 ^ 54
      < 16 * (\<Sum>k<2 * 6. (- 1) ^ k * (1 / real (k * 2 + 1) * (1 / 5) ^ (k * 2 + 1)))
        - 4 * (\<Sum>k<2 * 1 + 1. (- 1) ^ k * (1 / real (k * 2 + 1) * (1 / 239) ^ (k * 2 + 1)))"
    by (simp add: eval_nat_numeral)
  ultimately show ?thesis using a b by linarith
qed

lemma pi_upper: "pi < 884279719003555 / 2 ^ 48 + 1 / 2 ^ 39"
proof -
  have a: "arctan (1 / 5)
           \<le> (\<Sum>k<2 * 6 + 1. (- 1) ^ k * (1 / real (k * 2 + 1) * (1 / 5) ^ (k * 2 + 1)))"
    by (rule arctan_bounds(2)) simp_all
  have b: "(\<Sum>k<2 * 1. (- 1) ^ k * (1 / real (k * 2 + 1) * (1 / 239) ^ (k * 2 + 1)))
           \<le> arctan (1 / 239)"
    by (rule arctan_bounds(1)) simp_all
  have "pi = 16 * arctan (1 / 5) - 4 * arctan (1 / 239)" using machin by simp
  moreover have "16 * (\<Sum>k<2 * 6 + 1. (- 1) ^ k * (1 / real (k * 2 + 1) * (1 / 5) ^ (k * 2 + 1)))
        - 4 * (\<Sum>k<2 * 1. (- 1) ^ k * (1 / real (k * 2 + 1) * (1 / 239) ^ (k * 2 + 1)))
      < 884279719003555 / 2 ^ 48 + 1 / 2 ^ 39"
    by (simp add: eval_nat_numeral)
  ultimately show ?thesis using a b by linarith
qed


lemma cos_lipschitz: "\<bar>cos x - cos y\<bar> \<le> \<bar>x - y :: real\<bar>"
proof -
  have "\<bar>cos x - cos y\<bar> = 2 * \<bar>sin ((x + y) / 2)\<bar> * \<bar>sin ((y - x) / 2)\<bar>"
    by (simp add: cos_diff_cos abs_mult)
  also have "\<dots> \<le> 2 * 1 * \<bar>(y - x) / 2\<bar>"
    by (intro mult_mono abs_sin_x_le_abs_x) simp_all
  also have "\<dots> = \<bar>x - y\<bar>" by (simp add: abs_minus_commute)
  finally show ?thesis .
qed

lemma sin_lipschitz: "\<bar>sin x - sin y\<bar> \<le> \<bar>x - y :: real\<bar>"
proof -
  have "\<bar>sin x - sin y\<bar> = 2 * \<bar>sin ((x - y) / 2)\<bar> * \<bar>cos ((x + y) / 2)\<bar>"
    by (simp add: sin_diff_sin abs_mult)
  also have "\<dots> \<le> 2 * \<bar>(x - y) / 2\<bar> * 1"
    by (intro mult_mono abs_sin_x_le_abs_x) simp_all
  also have "\<dots> = \<bar>x - y\<bar>" by simp
  finally show ?thesis .
qed

lemma pow2_mono: "a \<le> b \<Longrightarrow> pow2 a \<le> pow2 b"
  by (simp add: pow2_powr)

text \<open>An integer of magnitude at most \<open>2\<^sup>5\<^sup>3\<close> is a Number exactly.\<close>

lemma int_representable:
  assumes "k \<noteq> 0" and "\<bar>k\<bar> \<le> 2 ^ 53"
  shows "round_binary 53 (- 1074) (of_int k) = of_int k"
proof -
  define e where "e = \<lfloor>log 2 \<bar>real_of_int k\<bar>\<rfloor>"
  have k0: "real_of_int k \<noteq> 0" using assms(1) by simp
  have lo: "pow2 e \<le> \<bar>real_of_int k\<bar>" and hi: "\<bar>real_of_int k\<bar> < pow2 (e + 1)"
    unfolding e_def using expo_bounds [OF k0] by simp_all
  have k1: "1 \<le> \<bar>real_of_int k\<bar>" using assms(1) by (simp flip: of_int_abs)
  have kb: "\<bar>real_of_int k\<bar> \<le> 2 ^ 53"
    using assms(2) by (metis of_int_abs of_int_le_iff of_int_numeral of_int_power)
  have e0: "0 \<le> e"
  proof (rule ccontr)
    assume "\<not> 0 \<le> e"
    then have "e + 1 \<le> 0" by simp
    then have "pow2 (e + 1) \<le> 1" by (rule pow2_le_one)
    with hi k1 show False by linarith
  qed
  have e53: "e \<le> 53"
  proof (rule ccontr)
    assume "\<not> e \<le> 53"
    then have "54 \<le> e" by simp
    then have "pow2 54 \<le> pow2 e" by (rule pow2_mono)
    moreover have "pow2 54 = 2 ^ 54" by (simp add: pow2_def)
    ultimately show False using lo kb by simp
  qed
  show ?thesis
  proof (cases "e \<le> 52")
    case True
    have q: "pow2 (max (e - 52) (- 1074)) = 1 / 2 ^ nat (52 - e)"
      using True e0 by (simp add: pow2_def max_def)
    have "real_of_int k / pow2 (max (e - (int 53 - 1)) (- 1074))
          = of_int (k * 2 ^ nat (52 - e))"
      by (simp add: q)
    then show ?thesis by (rule round_binary_exact [OF lo hi])
  next
    case False
    then have e: "e = 53" using e53 by simp
    have "pow2 53 = 2 ^ 53" by (simp add: pow2_def)
    then have "\<bar>real_of_int k\<bar> = 2 ^ 53" using lo kb e by simp
    then have "\<bar>k\<bar> = 2 ^ 53"
      by (metis of_int_abs of_int_eq_iff of_int_numeral of_int_power)
    then have "k = 2 ^ 53 \<or> k = - (2 ^ 53)" by linarith
    then have "real_of_int k / 2 = of_int (k div 2)" by auto
    moreover have "pow2 (max (e - (int 53 - 1)) (- 1074)) = 2" by (simp add: e pow2_def)
    ultimately have "real_of_int k / pow2 (max (e - (int 53 - 1)) (- 1074)) = of_int (k div 2)"
      by simp
    then show ?thesis by (rule round_binary_exact [OF lo hi])
  qed
qed

lemma num_of_int_exact:
  assumes "\<bar>k\<bar> \<le> 2 ^ 53"
  shows "finite_num (num_of_int k)" and "val (num_of_int k) = of_int k"
proof -
  have fin: "finite_num (num_of_int k)" by (rule num_of_int_bounded(1) [OF assms])
  show "finite_num (num_of_int k)" by (rule fin)
  show "val (num_of_int k) = of_int k"
  proof (cases "k = 0")
    case True
    then show ?thesis by simp
  next
    case False
    have kb: "\<bar>real_of_int k\<bar> \<le> 2 ^ 53"
      using assms by (metis of_int_abs of_int_le_iff of_int_numeral of_int_power)
    then have b: "\<bar>real_of_int k\<bar> \<le> 2 ^ 120" by simp
    have "val (num_of_int k) = round_binary 53 (- 1074) (of_int k)"
      unfolding num_of_int_def rnd64_def by (rule to_format_bounded(2) [OF b]) simp_all
    then show ?thesis by (simp add: int_representable [OF False assms])
  qed
qed

lemma two_pi_gap:
  "1 / 2 ^ 53 < 2 * pi - 884279719003555 / 2 ^ 47"
  "2 * pi - 884279719003555 / 2 ^ 47 < 1 / 2 ^ 38"
  using pi_lower pi_upper by simp_all

lemma angle_error:
  assumes "3 \<le> n" and "n \<le> 2 ^ 53" and "0 \<le> i" and "i \<le> n"
  shows "\<bar>val (num_mul (num_of_int i) (angle_step n)) - of_int i * (2 * pi / of_int n)\<bar>
         \<le> 1 / 2 ^ 37"
proof -
  define P :: real where "P = 884279719003555 / 2 ^ 47"
  define N where "N = real_of_int n"
  define I where "I = real_of_int i"
  define rr where "rr = I / N"
  define st where "st = val (angle_step n)"
  define \<theta> where "\<theta> = val (num_mul (num_of_int i) (angle_step n))"
  define c :: real where "c = 1 / 2 ^ 200"
  have nb: "\<bar>n\<bar> \<le> 2 ^ 53" and ib: "\<bar>i\<bar> \<le> 2 ^ 53" using assms by simp_all
  have N3: "3 \<le> N" using assms(1) by (simp add: N_def)
  have I0: "0 \<le> I" and IN: "I \<le> N" using assms(3,4) by (simp_all add: I_def N_def)
  have Ib: "I \<le> 2 ^ 53"
  proof -
    have "real_of_int i \<le> real_of_int (2 ^ 53)" using ib by (intro of_int_le_iff [THEN iffD2]) simp
    then show ?thesis by (simp add: I_def)
  qed
  have rr0: "0 \<le> rr" and rr1: "rr \<le> 1" using I0 IN N3 by (simp_all add: rr_def)
  have P_pos: "0 < P" and P7: "P \<le> 7" by (simp_all add: P_def)
  have gap: "\<bar>P - 2 * pi\<bar> \<le> 1 / 2 ^ 38" using two_pi_gap by (simp add: P_def)
  have vn: "val (num_of_int n) = N" unfolding N_def by (rule num_of_int_exact(2) [OF nb])
  have vi: "val (num_of_int i) = I" unfolding I_def by (rule num_of_int_exact(2) [OF ib])
  have n_fin: "finite_num (num_of_int n)" by (rule num_of_int_exact(1) [OF nb])
  have i_fin: "finite_num (num_of_int i)" by (rule num_of_int_exact(1) [OF ib])
  have p_fin: "finite_num (num_mul Math_PI (Fin 2))" by (simp add: two_pi_double)
  have pv: "val (num_mul Math_PI (Fin 2)) = P" by (simp add: two_pi_double P_def)
  have PN0: "0 \<le> P / N" using P_pos N3 by simp
  have PN: "P / N \<le> 7 / 3"
  proof -
    have "P / N \<le> P / 3" using N3 P_pos by (intro divide_left_mono) simp_all
    then show ?thesis using P7 by linarith
  qed
  have qb: "\<bar>val (num_mul Math_PI (Fin 2)) / val (num_of_int n)\<bar> \<le> 2 ^ 120"
  proof -
    have "\<bar>P / N\<bar> \<le> 7 / 3" using PN PN0 by simp
    also have "(7 / 3 :: real) \<le> 2 ^ 120" by simp
    finally show ?thesis by (simp only: pv vn)
  qed
  have nz: "val (num_of_int n) \<noteq> 0" using N3 by (simp add: vn)
  have st_fin: "finite_num (angle_step n)"
    unfolding angle_step_def by (rule num_div_bounded(1) [OF p_fin n_fin nz qb])
  have st_err: "\<bar>st - P / N\<bar> \<le> (P / N) / 2 ^ 53 + c"
    using num_div_bounded(2) [OF p_fin n_fin nz qb] PN0
    by (simp add: angle_step_def pv vn st_def c_def)
  have Ist: "\<bar>I * st - rr * P\<bar> \<le> P / 2 ^ 53 + 2 ^ 53 * c"
  proof -
    have "I * st - rr * P = I * (st - P / N)" using N3 by (simp add: rr_def field_simps)
    then have "\<bar>I * st - rr * P\<bar> = I * \<bar>st - P / N\<bar>" using I0 by (simp add: abs_mult)
    also have "\<dots> \<le> I * ((P / N) / 2 ^ 53 + c)" using st_err I0 by (rule mult_left_mono)
    also have "\<dots> = rr * P / 2 ^ 53 + I * c" using N3 by (simp add: rr_def field_simps)
    also have "\<dots> \<le> 1 * P / 2 ^ 53 + 2 ^ 53 * c"
    proof -
      have "rr * P \<le> 1 * P" using rr1 P_pos by (intro mult_right_mono) simp_all
      then have "rr * P / 2 ^ 53 \<le> 1 * P / 2 ^ 53" by (intro divide_right_mono) simp_all
      moreover have "I * c \<le> 2 ^ 53 * c" using Ib by (intro mult_right_mono) (simp_all add: c_def)
      ultimately show ?thesis by linarith
    qed
    finally show ?thesis by simp
  qed
  have rrP: "\<bar>rr * P\<bar> \<le> 7"
  proof -
    have "rr * P \<le> 1 * P" using rr1 P_pos by (intro mult_right_mono) simp_all
    moreover have "0 \<le> rr * P" using rr0 P_pos by simp
    ultimately show ?thesis using P7 by simp
  qed
  have Istb: "\<bar>I * st\<bar> \<le> 8"
  proof -
    have "\<bar>I * st\<bar> \<le> \<bar>I * st - rr * P\<bar> + \<bar>rr * P\<bar>" by linarith
    also have "\<dots> \<le> P / 2 ^ 53 + 2 ^ 53 * c + 7" using Ist rrP by linarith
    also have "\<dots> \<le> 8" using P7 by (simp add: c_def)
    finally show ?thesis .
  qed
  have b: "\<bar>val (num_of_int i) * val (angle_step n)\<bar> \<le> 2 ^ 120"
  proof -
    have "\<bar>I * st\<bar> \<le> 8" by (rule Istb)
    also have "(8::real) \<le> 2 ^ 120" by simp
    finally show ?thesis by (simp only: vi st_def)
  qed
  have th_err: "\<bar>\<theta> - I * st\<bar> \<le> \<bar>I * st\<bar> / 2 ^ 53 + c"
    using num_mul_bounded(2) [OF i_fin st_fin b] by (simp add: \<theta>_def vi st_def c_def)
  have rot: "\<bar>rr * P - rr * (2 * pi)\<bar> \<le> 1 / 2 ^ 38"
  proof -
    have "\<bar>rr * P - rr * (2 * pi)\<bar> = rr * \<bar>P - 2 * pi\<bar>"
      using rr0 by (simp add: abs_mult flip: right_diff_distrib)
    also have "\<dots> \<le> 1 * (1 / 2 ^ 38)" using rr0 rr1 gap by (intro mult_mono) simp_all
    finally show ?thesis by simp
  qed
  have target: "of_int i * (2 * pi / of_int n) = rr * (2 * pi)"
    by (simp add: rr_def I_def N_def)
  have "\<bar>\<theta> - rr * (2 * pi)\<bar>
        \<le> \<bar>\<theta> - I * st\<bar> + \<bar>I * st - rr * P\<bar> + \<bar>rr * P - rr * (2 * pi)\<bar>"
    by linarith
  also have "\<dots> \<le> (8 / 2 ^ 53 + c) + (7 / 2 ^ 53 + 2 ^ 53 * c) + 1 / 2 ^ 38"
  proof -
    have "\<bar>I * st\<bar> / 2 ^ 53 \<le> 8 / 2 ^ 53" using Istb by (intro divide_right_mono) simp_all
    moreover have "P / 2 ^ 53 \<le> 7 / 2 ^ 53" using P7 by (intro divide_right_mono) simp_all
    ultimately show ?thesis using th_err Ist rot by linarith
  qed
  also have "\<dots> \<le> 1 / 2 ^ 37" by (simp add: c_def)
  finally have "\<bar>\<theta> - rr * (2 * pi)\<bar> \<le> 1 / 2 ^ 37" .
  then show ?thesis unfolding \<theta>_def by (simp only: target)
qed


lemma sample_x_near:
  assumes acc: "accurate lib eps" and eps: "0 \<le> eps" "eps \<le> 1"
    and n: "3 \<le> n" "n \<le> 2 ^ 53" and i: "0 \<le> i" "i \<le> n"
    and c0: "finite_num cx" and rad: "finite_num radius"
    and A: "\<bar>val cx\<bar> \<le> 2 ^ 100" and R: "\<bar>val radius\<bar> \<le> 2 ^ 100"
  shows "near (coordinate_tolerance eps (val cx) (val radius))
           (fround (sample_x lib cx radius (angle_step n) i))
           (val cx + val radius * cos (of_int i * (2 * pi / of_int n)))"
proof -
  define ang where "ang = num_mul (num_of_int i) (angle_step n)"
  define \<phi> where "\<phi> = real_of_int i * (2 * pi / real_of_int n)"
  have a_fin: "finite_num ang" unfolding ang_def by (rule angle_finite [OF n i])
  have a_err: "\<bar>val ang - \<phi>\<bar> \<le> 1 / 2 ^ 37" unfolding ang_def \<phi>_def by (rule angle_error [OF n i])
  have t_fin: "finite_num (Math_cos lib ang)" by (rule Math_cos_accurate(1) [OF acc eps(1) a_fin])
  have t_err: "\<bar>val (Math_cos lib ang) - cos (val ang)\<bar> \<le> eps"
    by (rule Math_cos_accurate(2) [OF acc eps(1) a_fin])
  have w: "\<bar>cos (val ang)\<bar> \<le> 1" by simp
  note ce = coordinate_error [OF c0 rad t_fin t_err w eps A R]
  have fin: "finite_num (fround (sample_x lib cx radius (angle_step n) i))"
    using ce(1) by (simp add: sample_x_def ang_def)
  have e1: "\<bar>val (fround (sample_x lib cx radius (angle_step n) i))
             - (val cx + val radius * cos (val ang))\<bar>
            \<le> \<bar>val radius\<bar> * eps + (\<bar>val cx\<bar> + \<bar>val radius\<bar>) / 2 ^ 22 + 1 / 2 ^ 149"
    using ce(2) by (simp add: sample_x_def ang_def)
  have e2: "\<bar>val radius * cos (val ang) - val radius * cos \<phi>\<bar> \<le> \<bar>val radius\<bar> / 2 ^ 37"
  proof -
    have "\<bar>val radius * cos (val ang) - val radius * cos \<phi>\<bar>
          = \<bar>val radius\<bar> * \<bar>cos (val ang) - cos \<phi>\<bar>"
      by (simp add: abs_mult flip: right_diff_distrib)
    also have "\<dots> \<le> \<bar>val radius\<bar> * (1 / 2 ^ 37)"
      using cos_lipschitz [of "val ang" \<phi>] a_err by (intro mult_left_mono) simp_all
    finally show ?thesis by simp
  qed
  have "\<bar>val (fround (sample_x lib cx radius (angle_step n) i)) - (val cx + val radius * cos \<phi>)\<bar>
        \<le> coordinate_tolerance eps (val cx) (val radius)"
    unfolding coordinate_tolerance_def using e1 e2 by linarith
  with fin show ?thesis by (simp add: near_def \<phi>_def)
qed

lemma sample_y_near:
  assumes acc: "accurate lib eps" and eps: "0 \<le> eps" "eps \<le> 1"
    and n: "3 \<le> n" "n \<le> 2 ^ 53" and i: "0 \<le> i" "i \<le> n"
    and c0: "finite_num cy" and rad: "finite_num radius"
    and A: "\<bar>val cy\<bar> \<le> 2 ^ 100" and R: "\<bar>val radius\<bar> \<le> 2 ^ 100"
  shows "near (coordinate_tolerance eps (val cy) (val radius))
           (fround (sample_y lib cy radius (angle_step n) i))
           (val cy + val radius * sin (of_int i * (2 * pi / of_int n)))"
proof -
  define ang where "ang = num_mul (num_of_int i) (angle_step n)"
  define \<phi> where "\<phi> = real_of_int i * (2 * pi / real_of_int n)"
  have a_fin: "finite_num ang" unfolding ang_def by (rule angle_finite [OF n i])
  have a_err: "\<bar>val ang - \<phi>\<bar> \<le> 1 / 2 ^ 37" unfolding ang_def \<phi>_def by (rule angle_error [OF n i])
  have t_fin: "finite_num (Math_sin lib ang)" by (rule Math_sin_accurate(1) [OF acc eps(1) a_fin])
  have t_err: "\<bar>val (Math_sin lib ang) - sin (val ang)\<bar> \<le> eps"
    by (rule Math_sin_accurate(2) [OF acc eps(1) a_fin])
  have w: "\<bar>sin (val ang)\<bar> \<le> 1" by simp
  note ce = coordinate_error [OF c0 rad t_fin t_err w eps A R]
  have fin: "finite_num (fround (sample_y lib cy radius (angle_step n) i))"
    using ce(1) by (simp add: sample_y_def ang_def)
  have e1: "\<bar>val (fround (sample_y lib cy radius (angle_step n) i))
             - (val cy + val radius * sin (val ang))\<bar>
            \<le> \<bar>val radius\<bar> * eps + (\<bar>val cy\<bar> + \<bar>val radius\<bar>) / 2 ^ 22 + 1 / 2 ^ 149"
    using ce(2) by (simp add: sample_y_def ang_def)
  have e2: "\<bar>val radius * sin (val ang) - val radius * sin \<phi>\<bar> \<le> \<bar>val radius\<bar> / 2 ^ 37"
  proof -
    have "\<bar>val radius * sin (val ang) - val radius * sin \<phi>\<bar>
          = \<bar>val radius\<bar> * \<bar>sin (val ang) - sin \<phi>\<bar>"
      by (simp add: abs_mult flip: right_diff_distrib)
    also have "\<dots> \<le> \<bar>val radius\<bar> * (1 / 2 ^ 37)"
      using sin_lipschitz [of "val ang" \<phi>] a_err by (intro mult_left_mono) simp_all
    finally show ?thesis by simp
  qed
  have "\<bar>val (fround (sample_y lib cy radius (angle_step n) i)) - (val cy + val radius * sin \<phi>)\<bar>
        \<le> coordinate_tolerance eps (val cy) (val radius)"
    unfolding coordinate_tolerance_def using e1 e2 by linarith
  with fin show ?thesis by (simp add: near_def \<phi>_def)
qed

lemma near_on_circle:
  assumes "0 \<le> r"
    and "near t1 x (a + r * cos \<phi>)" and "near t2 y (b + r * sin \<phi>)"
  shows "on_circle a b r (t1 + t2) (x, y)"
  using assms distance_error [of r "val x" a \<phi> t1 "val y" b t2]
  by (simp add: near_def on_circle_def)

lemma accurate_correctly_rounded: "accurate correctly_rounded (1 / 2 ^ 52)"
proof -
  have "finite_num (rnd64 neg w) \<and> \<bar>val (rnd64 neg w) - w\<bar> \<le> 1 / 2 ^ 52" if "\<bar>w\<bar> \<le> 1" for neg w
  proof -
    have b: "\<bar>w\<bar> \<le> 2 ^ 120" using that by simp
    have "\<bar>w\<bar> / 2 ^ 53 \<le> 1 / 2 ^ 53" using that by (intro divide_right_mono) simp_all
    then have "\<bar>val (rnd64 neg w) - w\<bar> \<le> 1 / 2 ^ 53 + 1 / 2 ^ 200"
      using rnd64_bounded(2) [OF b, of neg] by linarith
    also have "\<dots> \<le> 1 / 2 ^ 52" by simp
    finally show ?thesis using rnd64_bounded(1) [OF b] by simp
  qed
  then show ?thesis by (simp add: accurate_def correctly_rounded_def)
qed

section \<open>The loops as list comprehensions\<close>

declare circle_loop.simps [simp del]
declare polygon_loop.simps [simp del]

lemma circle_loop_step:
  "i \<le> n \<Longrightarrow> circle_loop lib cx cy r st n i vs
                = circle_loop lib cx cy r st n (i + 1)
                    (vs @ [sample_x lib cx r st i, sample_y lib cy r st i])"
  by (subst circle_loop.simps) (simp add: sample_x_def sample_y_def Let_def)

lemma circle_loop_stop: "\<not> i \<le> n \<Longrightarrow> circle_loop lib cx cy r st n i vs = vs"
  by (subst circle_loop.simps) simp

lemma polygon_loop_step:
  "i < n \<Longrightarrow> polygon_loop lib cx cy r st n i vs
                = polygon_loop lib cx cy r st n (i + 1)
                    (vs @ [sample_x lib cx r st i, sample_y lib cy r st i])"
  by (subst polygon_loop.simps) (simp add: sample_x_def sample_y_def Let_def)

lemma polygon_loop_stop: "\<not> i < n \<Longrightarrow> polygon_loop lib cx cy r st n i vs = vs"
  by (subst polygon_loop.simps) simp

lemma circle_loop_eq:
  "circle_loop lib cx cy r st n i vs
   = vs @ concat (map (\<lambda>j. [sample_x lib cx r st j, sample_y lib cy r st j]) [i..n])"
proof (induction "nat (n + 1 - i)" arbitrary: i vs)
  case 0
  then have "\<not> i \<le> n" by simp
  then show ?case by (simp add: circle_loop_stop)
next
  case (Suc k)
  then have le: "i \<le> n" and k: "k = nat (n + 1 - (i + 1))" by simp_all
  have "circle_loop lib cx cy r st n i vs
        = (vs @ [sample_x lib cx r st i, sample_y lib cy r st i])
          @ concat (map (\<lambda>j. [sample_x lib cx r st j, sample_y lib cy r st j]) [i + 1..n])"
    using Suc.hyps(1) [OF k] le by (simp only: circle_loop_step)
  also have "\<dots> = vs @ concat (map (\<lambda>j. [sample_x lib cx r st j, sample_y lib cy r st j]) [i..n])"
    using le by (simp add: upto_rec1 [of i n])
  finally show ?case .
qed

lemma polygon_loop_eq:
  "polygon_loop lib cx cy r st n i vs
   = vs @ concat (map (\<lambda>j. [sample_x lib cx r st j, sample_y lib cy r st j]) [i..n - 1])"
proof (induction "nat (n - i)" arbitrary: i vs)
  case 0
  then have "\<not> i < n" by simp
  then show ?case by (simp add: polygon_loop_stop)
next
  case (Suc k)
  then have less: "i < n" and k: "k = nat (n - (i + 1))" by simp_all
  have "polygon_loop lib cx cy r st n i vs
        = (vs @ [sample_x lib cx r st i, sample_y lib cy r st i])
          @ concat (map (\<lambda>j. [sample_x lib cx r st j, sample_y lib cy r st j]) [i + 1..n - 1])"
    using Suc.hyps(1) [OF k] less by (simp only: polygon_loop_step)
  also have "\<dots> = vs @ concat (map (\<lambda>j. [sample_x lib cx r st j, sample_y lib cy r st j])
                                  [i..n - 1])"
    using less by (simp add: upto_rec1 [of i "n - 1"])
  finally show ?case .
qed

section \<open>The returned arrays in closed form\<close>

lemma map_concat_pairs:
  "map h (concat (map (\<lambda>j. [f j, g j]) js)) = concat (map (\<lambda>j. [h (f j), h (g j)]) js)"
  by (induction js) simp_all

lemma points_pairs: "points (concat (map (\<lambda>j. [f j, g j]) js)) = map (\<lambda>j. (f j, g j)) js"
  by (induction js) simp_all

lemma length_pairs: "length (concat (map (\<lambda>j. [f j, g j]) js)) = 2 * length js"
  by (induction js) simp_all

lemma circle_closed_form:
  "generateCircleVertices lib cx cy r n
   = fround cx # fround cy #
     concat (map (\<lambda>i. [fround (sample_x lib cx r (angle_step n) i),
                        fround (sample_y lib cy r (angle_step n) i)]) [0..n])"
  by (simp add: generateCircleVertices_def circle_loop_eq angle_step_def map_concat_pairs
      Let_def)

lemma polygon_closed_form:
  "generatePolygonVertices lib cx cy r n
   = concat (map (\<lambda>i. [fround (sample_x lib cx r (angle_step n) i),
                        fround (sample_y lib cy r (angle_step n) i)]) [0..n - 1])"
  by (simp add: generatePolygonVertices_def polygon_loop_eq angle_step_def map_concat_pairs
      Let_def)

lemma circle_points:
  "points (generateCircleVertices lib cx cy r n)
   = (fround cx, fround cy) #
     map (\<lambda>i. (fround (sample_x lib cx r (angle_step n) i),
                fround (sample_y lib cy r (angle_step n) i))) [0..n]"
  by (simp add: circle_closed_form points_pairs)

lemma polygon_points:
  "points (generatePolygonVertices lib cx cy r n)
   = map (\<lambda>i. (fround (sample_x lib cx r (angle_step n) i),
                fround (sample_y lib cy r (angle_step n) i))) [0..n - 1]"
  by (simp add: polygon_closed_form points_pairs)

lemma length_generateCircleVertices:
  "length (generateCircleVertices lib cx cy r n) = 2 * (nat (n + 1) + 1)"
  by (simp add: circle_closed_form length_pairs)

lemma length_generatePolygonVertices:
  "length (generatePolygonVertices lib cx cy r n) = 2 * nat n"
  by (simp add: polygon_closed_form length_pairs)



section \<open>The seam of the circle\<close>

lemma rnd64_zero [simp]: "rnd64 neg 0 = signed_zero neg"
  by (simp add: rnd64_def)



lemma num_of_int_4: "num_of_int 4 = Fin 4"
proof -
  have "rnd64 False 4 = Fin 4"
    by (rule rnd64_exact [where k = 2 and m = "4 * 2 ^ 50"]) (simp_all add: pow2_def)
  then show ?thesis by (simp add: num_of_int_def)
qed

lemma angle_step_4: "angle_step 4 = Fin (884279719003555 / 2 ^ 49)"
proof -
  have "rnd64 False (884279719003555 / 2 ^ 49) = Fin (884279719003555 / 2 ^ 49)"
    by (rule rnd64_exact [where k = 0 and m = "884279719003555 * 2 ^ 3"])
      (simp_all add: pow2_def)
  then show ?thesis
    by (simp add: angle_step_def two_pi_double num_of_int_4 num_div_def)
qed







section \<open>The circle generator\<close>


lemma near_fround:
  assumes "finite_num c" and "\<bar>val c\<bar> \<le> 2 ^ 100"
  shows "near (\<bar>val c\<bar> / 2 ^ 24 + 1 / 2 ^ 150) (fround c) (val c)"
proof -
  have b: "\<bar>val c\<bar> \<le> 2 ^ 120"
  proof -
    have "(2::real) ^ 100 \<le> 2 ^ 120" by simp
    with assms(2) show ?thesis by linarith
  qed
  show ?thesis
    using fround_bounded [OF assms(1) b] by (simp add: near_def)
qed






lemma fround_16777217: "fround (Fin 16777217) = Fin 16777216"
proof -
  have "round_binary 24 (- 149) 16777217
        = of_int (rne (16777217 / pow2 (max (24 - (int 24 - 1)) (- 149))))
          * pow2 (max (24 - (int 24 - 1)) (- 149))"
    by (rule round_binary_at) (simp_all add: pow2_def)
  also have "\<dots> = 16777216" by (simp add: pow2_def rne_def)
  finally have "round_binary 24 (- 149) 16777217 = 16777216" .
  then show ?thesis
    by (simp add: fround.simps(1) rnd32_def to_format_def)
qed

lemma rnd64_one: "rnd64 False 1 = Fin 1"
  by (rule rnd64_exact [where k = 0 and m = "2 ^ 52"]) (simp_all add: pow2_def)

lemma rnd64_16777217: "rnd64 False 16777217 = Fin 16777217"
  by (rule rnd64_exact [where k = 24 and m = "16777217 * 2 ^ 28"]) (simp_all add: pow2_def)

lemma sample_zero:
  "sample_x lib (Fin 16777216) (Fin 1) (angle_step 4) 0 = Fin 16777217"
  "sample_y lib (Fin 0) (Fin 1) (angle_step 4) 0 = Fin 0"
  by (simp_all add: sample_x_def sample_y_def angle_step_4 num_mul_def num_add_def
      rnd64_one rnd64_16777217 signed_zero_def)

lemma upto_0_3: "[0..(3::int)] = [0, 1, 2, 3]"
  by (simp add: upto_rec1)




section \<open>The polygon generator\<close>








section \<open>Invalid parameters\<close>








section \<open>Distance from the center\<close>

lemma center_rounded:
  assumes "finite_num cx" and "finite_num cy"
    and "\<bar>val cx\<bar> \<le> 2 ^ 100" and "\<bar>val cy\<bar> \<le> 2 ^ 100"
  shows "on_circle (val cx) (val cy) 0 (\<bar>val cx\<bar> / 2 ^ 24 + \<bar>val cy\<bar> / 2 ^ 24 + 1 / 2 ^ 149)
           (fround cx, fround cy)"
proof -
  have x: "near (\<bar>val cx\<bar> / 2 ^ 24 + 1 / 2 ^ 150) (fround cx) (val cx)"
    by (rule near_fround [OF assms(1,3)])
  have y: "near (\<bar>val cy\<bar> / 2 ^ 24 + 1 / 2 ^ 150) (fround cy) (val cy)"
    by (rule near_fround [OF assms(2,4)])
  have "sqrt ((val (fround cx) - val cx)\<^sup>2 + (val (fround cy) - val cy)\<^sup>2)
        \<le> \<bar>val (fround cx) - val cx\<bar> + \<bar>val (fround cy) - val cy\<bar>"
    by (rule sqrt_sum_squares_le_sum_abs)
  also have "\<dots> \<le> (\<bar>val cx\<bar> / 2 ^ 24 + 1 / 2 ^ 150) + (\<bar>val cy\<bar> / 2 ^ 24 + 1 / 2 ^ 150)"
    using x y by (simp add: near_def)
  also have "\<dots> = \<bar>val cx\<bar> / 2 ^ 24 + \<bar>val cy\<bar> / 2 ^ 24 + 1 / 2 ^ 149" by simp
  finally show ?thesis using x y by (simp add: on_circle_def near_def)
qed

lemma small_tolerance:
  assumes "0 \<le> eps" and "eps \<le> 1 / 2 ^ 26" and "\<bar>c\<bar> \<le> 1" and "0 \<le> r" and "r \<le> 1"
  shows "coordinate_tolerance eps c r \<le> 1 / 2000000"
proof -
  have "r * eps \<le> 1 * (1 / 2 ^ 26)" using assms by (intro mult_mono) simp_all
  moreover have "(\<bar>c\<bar> + r) / 2 ^ 22 \<le> (1 + 1) / 2 ^ 22"
    using assms by (intro divide_right_mono) simp_all
  moreover have "r / 2 ^ 37 \<le> 1 / 2 ^ 37" using assms by (intro divide_right_mono) simp_all
  moreover have "\<bar>r\<bar> = r" using assms(4) by simp
  moreover have "1 * (1 / 2 ^ 26) + (1 + 1) / 2 ^ 22 + 1 / 2 ^ 37 + 1 / 2 ^ 149
                 \<le> (1 / 2000000 :: real)" by simp
  ultimately show ?thesis unfolding coordinate_tolerance_def by linarith
qed

text \<open>
  Claim C4, as stated: with \<open>r > 0\<close> and \<open>n \<ge> 3\<close>, every point of both generators lies at
  distance \<open>r\<close> from the center within a floating-point tolerance such as \<open>10\<^sup>-\<^sup>6\<close>, the first
  point of the circle's sequence included. That first point is the center itself, at
  distance 0: for the unit circle it is not within \<open>10\<^sup>-\<^sup>6\<close> of distance 1. And a fixed
  tolerance does not hold for every center: with center \<open>(16777216, 0)\<close> and radius 1, point 0
  of the polygon is \<open>(16777216, 0)\<close> after the conversion to binary32, at distance 0.
\<close>

theorem radius_invariant_counterexample:
  "\<not> on_circle 0 0 1 (1 / 1000000)
       (points (generateCircleVertices correctly_rounded (Fin 0) (Fin 0) (Fin 1) 4) ! 0)
   \<and> \<not> on_circle 16777216 0 1 (1 / 1000000)
       (points (generatePolygonVertices correctly_rounded (Fin 16777216) (Fin 0) (Fin 1) 4) ! 0)"
proof -
  have a: "points (generateCircleVertices correctly_rounded (Fin 0) (Fin 0) (Fin 1) 4) ! 0
           = (Fin 0, Fin 0)"
    by (simp add: circle_points)
  have b: "points (generatePolygonVertices correctly_rounded (Fin 16777216) (Fin 0) (Fin 1) 4) ! 0
           = (Fin 16777216, Fin 0)"
    by (simp add: polygon_points upto_0_3 sample_zero fround_16777217)
  show ?thesis by (simp add: a b on_circle_def)
qed

text \<open>
  Claim C4, amended: let the implementation's cosine and sine be within \<open>eps\<close> of the real
  functions, \<open>3 \<le> n \<le> 2\<^sup>5\<^sup>3\<close>, the center finite with coordinates of magnitude at most \<open>2\<^sup>1\<^sup>0\<^sup>0\<close>
  and \<open>0 < r \<le> 2\<^sup>1\<^sup>0\<^sup>0\<close>. Then each of the \<open>n\<close> points of the polygon and each of the \<open>n + 1\<close>
  points of the circle's sequence after the first is finite and at a distance from the center
  that differs from \<open>r\<close> by at most the sum of the tolerances of its two coordinates, which
  grows with \<open>|cx|\<close>, \<open>|cy|\<close> and \<open>r\<close>; that sum is at most \<open>10\<^sup>-\<^sup>6\<close> when \<open>|cx|\<close>, \<open>|cy|\<close> and \<open>r\<close>
  are at most 1 and \<open>eps \<le> 2\<^sup>-\<^sup>2\<^sup>6\<close>. The first point of the circle's sequence is the center
  converted to binary32, at distance 0 from the center within the rounding error.
\<close>

theorem radius_invariant:
  assumes acc: "accurate lib eps" and e0: "0 \<le> eps" and e1: "eps \<le> 1"
    and n3: "3 \<le> n" and nb: "n \<le> 2 ^ 53"
    and fx: "finite_num cx" and fy: "finite_num cy" and fr: "finite_num radius"
    and bx: "\<bar>val cx\<bar> \<le> 2 ^ 100" and "by": "\<bar>val cy\<bar> \<le> 2 ^ 100"
    and r0: "0 < val radius" and br: "val radius \<le> 2 ^ 100"
  shows "(let tol = coordinate_tolerance eps (val cx) (val radius)
                    + coordinate_tolerance eps (val cy) (val radius) in
           (\<forall>p \<in> set (points (generatePolygonVertices lib cx cy radius n)).
              on_circle (val cx) (val cy) (val radius) tol p)
         \<and> length (points (generatePolygonVertices lib cx cy radius n)) = nat n
         \<and> (\<forall>p \<in> set (tl (points (generateCircleVertices lib cx cy radius n))).
              on_circle (val cx) (val cy) (val radius) tol p)
         \<and> length (tl (points (generateCircleVertices lib cx cy radius n))) = nat n + 1
         \<and> hd (points (generateCircleVertices lib cx cy radius n)) = (fround cx, fround cy)
         \<and> on_circle (val cx) (val cy) 0
              (\<bar>val cx\<bar> / 2 ^ 24 + \<bar>val cy\<bar> / 2 ^ 24 + 1 / 2 ^ 149) (fround cx, fround cy)
         \<and> (\<bar>val cx\<bar> \<le> 1 \<and> \<bar>val cy\<bar> \<le> 1 \<and> val radius \<le> 1 \<and> eps \<le> 1 / 2 ^ 26
              \<longrightarrow> tol \<le> 1 / 1000000))"
proof -
  define tol where "tol = coordinate_tolerance eps (val cx) (val radius)
                          + coordinate_tolerance eps (val cy) (val radius)"
  have rr: "\<bar>val radius\<bar> \<le> 2 ^ 100" and rn: "0 \<le> val radius" using r0 br by simp_all
  have pt: "on_circle (val cx) (val cy) (val radius) tol
              (fround (sample_x lib cx radius (angle_step n) i),
               fround (sample_y lib cy radius (angle_step n) i))"
    if "0 \<le> i" "i \<le> n" for i
    unfolding tol_def
    by (rule near_on_circle [OF rn sample_x_near [OF acc e0 e1 n3 nb that fx fr bx rr]
          sample_y_near [OF acc e0 e1 n3 nb that fy fr "by" rr]])
  have poly: "\<forall>p \<in> set (points (generatePolygonVertices lib cx cy radius n)).
              on_circle (val cx) (val cy) (val radius) tol p"
    using pt by (auto simp add: polygon_points)
  have circ: "\<forall>p \<in> set (tl (points (generateCircleVertices lib cx cy radius n))).
              on_circle (val cx) (val cy) (val radius) tol p"
    using pt by (auto simp add: circle_points)
  have pl: "length (points (generatePolygonVertices lib cx cy radius n)) = nat n"
    using n3 by (simp add: polygon_points)
  have cl: "length (tl (points (generateCircleVertices lib cx cy radius n))) = nat n + 1"
    using n3 by (simp add: circle_points nat_add_distrib)
  have hd: "hd (points (generateCircleVertices lib cx cy radius n)) = (fround cx, fround cy)"
    by (simp add: circle_points)
  have cen: "on_circle (val cx) (val cy) 0
              (\<bar>val cx\<bar> / 2 ^ 24 + \<bar>val cy\<bar> / 2 ^ 24 + 1 / 2 ^ 149) (fround cx, fround cy)"
    by (rule center_rounded [OF fx fy bx "by"])
  have small: "tol \<le> 1 / 1000000"
    if "\<bar>val cx\<bar> \<le> 1 \<and> \<bar>val cy\<bar> \<le> 1 \<and> val radius \<le> 1 \<and> eps \<le> 1 / 2 ^ 26"
  proof -
    have "coordinate_tolerance eps (val cx) (val radius) \<le> 1 / 2000000"
      using that by (intro small_tolerance [OF e0 _ _ rn]) simp_all
    moreover have "coordinate_tolerance eps (val cy) (val radius) \<le> 1 / 2000000"
      using that by (intro small_tolerance [OF e0 _ _ rn]) simp_all
    ultimately show ?thesis unfolding tol_def by linarith
  qed
  show ?thesis
    unfolding Let_def tol_def [symmetric]
    using poly pl circ cl hd cen small by (intro conjI impI) blast+
qed

theorem radius_invariant_witness:
  "accurate correctly_rounded (1 / 2 ^ 52) \<and> (0::real) \<le> 1 / 2 ^ 52 \<and> (1::real) / 2 ^ 52 \<le> 1
   \<and> (3::int) \<le> 6 \<and> (6::int) \<le> 2 ^ 53
   \<and> finite_num (Fin 0) \<and> finite_num (Fin (1 / 2))
   \<and> \<bar>val (Fin 0)\<bar> \<le> 2 ^ 100 \<and> 0 < val (Fin (1 / 2)) \<and> val (Fin (1 / 2)) \<le> 2 ^ 100
   \<and> \<bar>val (Fin 0)\<bar> \<le> 1 \<and> val (Fin (1 / 2)) \<le> 1 \<and> (1::real) / 2 ^ 52 \<le> 1 / 2 ^ 26
   \<and> length (points (generatePolygonVertices correctly_rounded (Fin 0) (Fin 0) (Fin (1 / 2)) 6)) = 6
   \<and> on_circle 0 0 (1 / 2)
        (coordinate_tolerance (1 / 2 ^ 52) 0 (1 / 2) + coordinate_tolerance (1 / 2 ^ 52) 0 (1 / 2))
        (points (generatePolygonVertices correctly_rounded (Fin 0) (Fin 0) (Fin (1 / 2)) 6) ! 2)
   \<and> coordinate_tolerance (1 / 2 ^ 52) 0 (1 / 2) + coordinate_tolerance (1 / 2 ^ 52) 0 (1 / 2)
       \<le> 1 / 1000000"
proof -
  have h: "(0::real) \<le> 1 / 2 ^ 52" "(1::real) / 2 ^ 52 \<le> 1" "(3::int) \<le> 6" "(6::int) \<le> 2 ^ 53"
    "finite_num (Fin 0)" "finite_num (Fin 0)" "finite_num (Fin (1 / 2))"
    "\<bar>val (Fin 0)\<bar> \<le> 2 ^ 100" "\<bar>val (Fin 0)\<bar> \<le> 2 ^ 100"
    "0 < val (Fin (1 / 2))" "val (Fin (1 / 2)) \<le> 2 ^ 100"
    by simp_all
  have s: "\<bar>val (Fin 0)\<bar> \<le> 1 \<and> \<bar>val (Fin 0)\<bar> \<le> 1 \<and> val (Fin (1 / 2)) \<le> 1
           \<and> (1::real) / 2 ^ 52 \<le> 1 / 2 ^ 26"
    by simp
  note t = radius_invariant [OF accurate_correctly_rounded h, unfolded Let_def]
  note all = t [THEN conjunct1]
  note len = t [THEN conjunct2, THEN conjunct1]
  note small = t [THEN conjunct2, THEN conjunct2, THEN conjunct2, THEN conjunct2, THEN conjunct2,
      THEN conjunct2, rule_format, OF s]
  have "points (generatePolygonVertices correctly_rounded (Fin 0) (Fin 0) (Fin (1 / 2)) 6) ! 2
        \<in> set (points (generatePolygonVertices correctly_rounded (Fin 0) (Fin 0) (Fin (1 / 2)) 6))"
    using len by (intro nth_mem) simp
  then have p2: "on_circle (val (Fin 0)) (val (Fin 0)) (val (Fin (1 / 2)))
        (coordinate_tolerance (1 / 2 ^ 52) (val (Fin 0)) (val (Fin (1 / 2)))
         + coordinate_tolerance (1 / 2 ^ 52) (val (Fin 0)) (val (Fin (1 / 2))))
        (points (generatePolygonVertices correctly_rounded (Fin 0) (Fin 0) (Fin (1 / 2)) 6) ! 2)"
    using all by blast
  show ?thesis
    using accurate_correctly_rounded h s len p2 small by simp
qed

section \<open>Totality\<close>



section \<open>The fixed shapes\<close>

lemma shapes_own:
  "get_property (shapes lib) ''triangle'' = VFloat32Array triangle"
  "get_property (shapes lib) ''rectangle'' = VFloat32Array rectangle"
  "get_property (shapes lib) ''circle''
     = VFloat32Array (generateCircleVertices lib (Fin 0.0) (Fin 0.0) (Fin 0.5) 50)"
  "get_property (shapes lib) ''line'' = VFloat32Array line"
  "get_property (shapes lib) ''polygon''
     = VFloat32Array (generatePolygonVertices lib (Fin 0.0) (Fin 0.0) (Fin 0.5) 6)"
  by (simp_all add: get_property_def shapes_def)

lemma in_square_two_triangles:
  "in_square (1 / 2) p
   = (in_triangle (- (1 / 2), 1 / 2) (- (1 / 2), - (1 / 2)) (1 / 2, - (1 / 2)) p
      \<or> in_triangle (- (1 / 2), 1 / 2) (1 / 2, - (1 / 2)) (1 / 2, 1 / 2) p)"
proof (cases p)
  case (Pair x y)
  show ?thesis
    unfolding Pair in_square_def in_triangle_def cross_def fst_conv snd_conv
    by (auto simp add: abs_le_iff) 
qed

text \<open>
  Claim C5. The triangle constant has exactly 3 points: the apex \<open>(0, 0.5)\<close> and the base
  corners \<open>(-0.5, -0.5)\<close> and \<open>(0.5, -0.5)\<close>. The rectangle constant has exactly 6 points,
  two triangles that both wind counter-clockwise and together cover exactly the square
  centered at the origin with half-extent 0.5. The line constant is the two points
  \<open>(-0.5, 0)\<close> and \<open>(0.5, 0)\<close>.
\<close>

theorem fixed_shapes:
  "get_property (shapes lib) ''triangle'' = VFloat32Array triangle
   \<and> length (points triangle) = 3
   \<and> map real_point (points triangle)
       = [Some (0, 1 / 2), Some (- (1 / 2), - (1 / 2)), Some (1 / 2, - (1 / 2))]
   \<and> get_property (shapes lib) ''rectangle'' = VFloat32Array rectangle
   \<and> length (points rectangle) = 6
   \<and> map real_point (points rectangle)
       = [Some (- (1 / 2), 1 / 2), Some (- (1 / 2), - (1 / 2)), Some (1 / 2, - (1 / 2)),
          Some (- (1 / 2), 1 / 2), Some (1 / 2, - (1 / 2)), Some (1 / 2, 1 / 2)]
   \<and> ccw (- (1 / 2), 1 / 2) (- (1 / 2), - (1 / 2)) (1 / 2, - (1 / 2))
   \<and> ccw (- (1 / 2), 1 / 2) (1 / 2, - (1 / 2)) (1 / 2, 1 / 2)
   \<and> (\<forall>p. in_square (1 / 2) p
            = (in_triangle (- (1 / 2), 1 / 2) (- (1 / 2), - (1 / 2)) (1 / 2, - (1 / 2)) p
               \<or> in_triangle (- (1 / 2), 1 / 2) (1 / 2, - (1 / 2)) (1 / 2, 1 / 2) p))
   \<and> get_property (shapes lib) ''line'' = VFloat32Array line
   \<and> map real_point (points line) = [Some (- (1 / 2), 0), Some (1 / 2, 0)]"
proof -
  have tri: "map real_point (points triangle)
       = [Some (0, 1 / 2), Some (- (1 / 2), - (1 / 2)), Some (1 / 2, - (1 / 2))]"
    by (simp add: triangle_def)
  have rect: "map real_point (points rectangle)
       = [Some (- (1 / 2), 1 / 2), Some (- (1 / 2), - (1 / 2)), Some (1 / 2, - (1 / 2)),
          Some (- (1 / 2), 1 / 2), Some (1 / 2, - (1 / 2)), Some (1 / 2, 1 / 2)]"
    by (simp add: rectangle_def)
  have ln: "map real_point (points line) = [Some (- (1 / 2), 0), Some (1 / 2, 0)]"
    by (simp add: line_def)
  have lt: "length (points triangle) = 3" by (simp add: triangle_def)
  have lr: "length (points rectangle) = 6" by (simp add: rectangle_def)
  have w1: "ccw (- (1 / 2), 1 / 2) (- (1 / 2), - (1 / 2)) (1 / 2, - (1 / 2))"
    by (simp add: ccw_def cross_def)
  have w2: "ccw (- (1 / 2), 1 / 2) (1 / 2, - (1 / 2)) (1 / 2, 1 / 2)"
    by (simp add: ccw_def cross_def)
  show ?thesis
    using tri rect ln lt lr w1 w2 in_square_two_triangles shapes_own(1,2,4)
    by (intro conjI allI)
qed

section \<open>Drawing a shape\<close>

text \<open>The calls that precede the draw-mode switch when the lookup yields a true value.\<close>

lemma drawShape_found:
  assumes "truthy (get_property (shapes (math env)) shapeName)"
  shows "drawShape env shapeName w =
    (let shapeVertices = get_property (shapes (math env)) shapeName;
         w8 = w\<lparr>gl_calls := gl_calls w @
               [CreateBuffer,
                BindBuffer ARRAY_BUFFER (new_buffer env),
                BufferData ARRAY_BUFFER shapeVertices STATIC_DRAW,
                GetAttribLocation (program env) ''aPosition'',
                EnableVertexAttribArray (global_location env),
                VertexAttribPointer (global_location env) 2 FLOAT False 0 0,
                ClearColor (Fin 0) (Fin 0) (Fin 0) (Fin 1),
                Clear COLOR_BUFFER_BIT]\<rparr>
     in if shapeName = ''triangle'' \<or> shapeName = ''rectangle'' then
          gl_issue (DrawArrays TRIANGLES 0 (num_div (js_length shapeVertices) (Fin 2))) w8
        else if shapeName = ''circle'' then
          gl_issue (DrawArrays TRIANGLE_FAN 0 (num_div (js_length shapeVertices) (Fin 2))) w8
        else if shapeName = ''line'' then
          gl_issue (DrawArrays LINES 0 (num_div (js_length shapeVertices) (Fin 2))) w8
        else if shapeName = ''polygon'' then
          gl_issue (DrawArrays LINE_LOOP 0 (num_div (js_length shapeVertices) (Fin 2))) w8
        else console_error ''Unsupported shape type'' w8)"
  using assms
  by (simp add: drawShape_def Let_def gl_createBuffer_def gl_getAttribLocation_def gl_issue_def)

lemma drawShape_not_found:
  assumes "\<not> truthy (get_property (shapes (math env)) shapeName)"
  shows "drawShape env shapeName w
         = w\<lparr>console_errors := console_errors w @
               [''Shape '' @ [CHR 0x22] @ shapeName @ [CHR 0x22] @ '' not found!'']\<rparr>"
  using assms by (simp add: drawShape_def console_error_def)

lemma draw_calls_issue:
  "draw_calls (gl_issue c w) = draw_calls w @ (if is_draw c then [c] else [])"
  by (simp add: draw_calls_def gl_issue_def)

lemma draw_calls_setup:
  "draw_calls (w\<lparr>gl_calls := gl_calls w @
               [CreateBuffer, BindBuffer t b, BufferData t' v u, GetAttribLocation pr nm,
                EnableVertexAttribArray l, VertexAttribPointer l' k f nrm st off,
                ClearColor c1 c2 c3 c4, Clear m]\<rparr>) = draw_calls w"
  by (simp add: draw_calls_def)

lemma half_counts:
  "num_div (Fin 6) (Fin 2) = Fin 3"
  "num_div (Fin 12) (Fin 2) = Fin 6"
  "num_div (Fin 104) (Fin 2) = Fin 52"
  "num_div (Fin 4) (Fin 2) = Fin 2"
proof -
  have "rnd64 False 3 = Fin 3"
    by (rule rnd64_exact [where k = 1 and m = "3 * 2 ^ 51"]) (simp_all add: pow2_def)
  then show "num_div (Fin 6) (Fin 2) = Fin 3" by (simp add: num_div_def)
  have "rnd64 False 6 = Fin 6"
    by (rule rnd64_exact [where k = 2 and m = "6 * 2 ^ 50"]) (simp_all add: pow2_def)
  then show "num_div (Fin 12) (Fin 2) = Fin 6" by (simp add: num_div_def)
  have "rnd64 False 52 = Fin 52"
    by (rule rnd64_exact [where k = 5 and m = "52 * 2 ^ 47"]) (simp_all add: pow2_def)
  then show "num_div (Fin 104) (Fin 2) = Fin 52" by (simp add: num_div_def)
  have "rnd64 False 2 = Fin 2"
    by (rule rnd64_exact [where k = 1 and m = "2 * 2 ^ 51"]) (simp_all add: pow2_def)
  then show "num_div (Fin 4) (Fin 2) = Fin 2" by (simp add: num_div_def)
qed

text \<open>
  Claim C6. \<^verbatim>\<open>drawShape\<close> issues, for each of the five registered names, exactly one draw
  call: \<^verbatim>\<open>gl.TRIANGLES\<close> for \<^verbatim>\<open>"triangle"\<close> and \<^verbatim>\<open>"rectangle"\<close>, \<^verbatim>\<open>gl.TRIANGLE_FAN\<close> for
  \<^verbatim>\<open>"circle"\<close>, \<^verbatim>\<open>gl.LINES\<close> for \<^verbatim>\<open>"line"\<close>, \<^verbatim>\<open>gl.LINE_LOOP\<close> for \<^verbatim>\<open>"polygon"\<close>, each from
  vertex 0 with a count equal to the length of the shape's coordinate array divided by 2
  (3, 6, 52, 2 and 6 vertices).
\<close>

theorem drawShape_draw_modes:
  "draw_calls (drawShape env ''triangle'' w)
     = draw_calls w @ [DrawArrays TRIANGLES 0 (num_div (Fin (real (length triangle))) (Fin 2))]
   \<and> draw_calls (drawShape env ''rectangle'' w)
     = draw_calls w @ [DrawArrays TRIANGLES 0 (num_div (Fin (real (length rectangle))) (Fin 2))]
   \<and> draw_calls (drawShape env ''circle'' w)
     = draw_calls w @ [DrawArrays TRIANGLE_FAN 0
         (num_div (Fin (real (length (generateCircleVertices (math env) (Fin 0.0) (Fin 0.0) (Fin 0.5) 50))))
                  (Fin 2))]
   \<and> draw_calls (drawShape env ''line'' w)
     = draw_calls w @ [DrawArrays LINES 0 (num_div (Fin (real (length line))) (Fin 2))]
   \<and> draw_calls (drawShape env ''polygon'' w)
     = draw_calls w @ [DrawArrays LINE_LOOP 0
         (num_div (Fin (real (length (generatePolygonVertices (math env) (Fin 0.0) (Fin 0.0) (Fin 0.5) 6))))
                  (Fin 2))]
   \<and> num_div (Fin (real (length triangle))) (Fin 2) = Fin 3
   \<and> num_div (Fin (real (length rectangle))) (Fin 2) = Fin 6
   \<and> num_div (Fin (real (length (generateCircleVertices (math env) (Fin 0.0) (Fin 0.0) (Fin 0.5) 50))))
              (Fin 2) = Fin 52
   \<and> num_div (Fin (real (length line))) (Fin 2) = Fin 2
   \<and> num_div (Fin (real (length (generatePolygonVertices (math env) (Fin 0.0) (Fin 0.0) (Fin 0.5) 6))))
              (Fin 2) = Fin 6"
proof -
  have t: "draw_calls (drawShape env ''triangle'' w)
     = draw_calls w @ [DrawArrays TRIANGLES 0 (num_div (Fin (real (length triangle))) (Fin 2))]"
    by (simp add: drawShape_found shapes_own Let_def draw_calls_issue draw_calls_setup
        )
  have r: "draw_calls (drawShape env ''rectangle'' w)
     = draw_calls w @ [DrawArrays TRIANGLES 0 (num_div (Fin (real (length rectangle))) (Fin 2))]"
    by (simp add: drawShape_found shapes_own Let_def draw_calls_issue draw_calls_setup
        )
  have c: "draw_calls (drawShape env ''circle'' w)
     = draw_calls w @ [DrawArrays TRIANGLE_FAN 0
         (num_div (Fin (real (length (generateCircleVertices (math env) (Fin 0.0) (Fin 0.0) (Fin 0.5) 50))))
                  (Fin 2))]"
    by (simp add: drawShape_found shapes_own Let_def draw_calls_issue draw_calls_setup
        )
  have l: "draw_calls (drawShape env ''line'' w)
     = draw_calls w @ [DrawArrays LINES 0 (num_div (Fin (real (length line))) (Fin 2))]"
    by (simp add: drawShape_found shapes_own Let_def draw_calls_issue draw_calls_setup
        )
  have p: "draw_calls (drawShape env ''polygon'' w)
     = draw_calls w @ [DrawArrays LINE_LOOP 0
         (num_div (Fin (real (length (generatePolygonVertices (math env) (Fin 0.0) (Fin 0.0) (Fin 0.5) 6))))
                  (Fin 2))]"
    by (simp add: drawShape_found shapes_own Let_def draw_calls_issue draw_calls_setup
        )
  have n: "num_div (Fin (real (length triangle))) (Fin 2) = Fin 3"
    "num_div (Fin (real (length rectangle))) (Fin 2) = Fin 6"
    "num_div (Fin (real (length (generateCircleVertices (math env) (Fin 0.0) (Fin 0.0) (Fin 0.5) 50))))
              (Fin 2) = Fin 52"
    "num_div (Fin (real (length line))) (Fin 2) = Fin 2"
    "num_div (Fin (real (length (generatePolygonVertices (math env) (Fin 0.0) (Fin 0.0) (Fin 0.5) 6))))
              (Fin 2) = Fin 6"
    by (simp_all add: triangle_def rectangle_def line_def half_counts
        length_generateCircleVertices length_generatePolygonVertices)
  from t r c l p n show ?thesis by (intro conjI)
qed

text \<open>
  Claim C7 says that for every name other than the five registered ones \<^verbatim>\<open>drawShape\<close> logs
  an error and returns before it creates or uploads a buffer. The guard is
  \<^verbatim>\<open>if (!shapeVertices)\<close> on the property read \<^verbatim>\<open>shapes[shapeName]\<close>, and \<^verbatim>\<open>shapes\<close> is an
  object literal: for a name that \<^verbatim>\<open>Object.prototype\<close> defines the read yields an inherited
  function, which is true. At \<^verbatim>\<open>"toString"\<close> the guard is passed, a buffer is created, bound
  and filled, the canvas is cleared, and only the \<^verbatim>\<open>default\<close> arm of the switch logs
  \<^verbatim>\<open>Unsupported shape type\<close>; no draw call is issued.
\<close>

theorem drawShape_inherited_name:
  "drawShape env ''toString'' w
   = w\<lparr>gl_calls := gl_calls w @
         [CreateBuffer,
          BindBuffer ARRAY_BUFFER (new_buffer env),
          BufferData ARRAY_BUFFER (VFunction ''toString'' 0) STATIC_DRAW,
          GetAttribLocation (program env) ''aPosition'',
          EnableVertexAttribArray (global_location env),
          VertexAttribPointer (global_location env) 2 FLOAT False 0 0,
          ClearColor (Fin 0) (Fin 0) (Fin 0) (Fin 1),
          Clear COLOR_BUFFER_BIT],
       console_errors := console_errors w @ [''Unsupported shape type'']\<rparr>"
proof -
  have g: "get_property (shapes (math env)) ''toString'' = VFunction ''toString'' 0"
    by (simp add: get_property_def shapes_def Object_prototype_def)
  show ?thesis
    by (simp add: drawShape_found g Let_def console_error_def)
qed

text \<open>
  For a name that is neither an own property of \<^verbatim>\<open>shapes\<close> nor a property of
  \<^verbatim>\<open>Object.prototype\<close> the guard works: one error is logged and no call is issued.
\<close>

lemma drawShape_absent_name:
  assumes "map_of (shapes (math env)) shapeName = None" and "map_of Object_prototype shapeName = None"
  shows "drawShape env shapeName w
         = w\<lparr>console_errors := console_errors w @
               [''Shape '' @ [CHR 0x22] @ shapeName @ [CHR 0x22] @ '' not found!'']\<rparr>"
  using assms by (simp add: drawShape_not_found get_property_def)

text \<open>
  Claim C9. In \<^verbatim>\<open>drawShape\<close> the attribute location is computed into \<^verbatim>\<open>aPositionLocation\<close>,
  but \<^verbatim>\<open>gl.enableVertexAttribArray\<close> and \<^verbatim>\<open>gl.vertexAttribPointer\<close> are passed the
  identifier \<^verbatim>\<open>location\<close>, which the module does not declare: the value that
  \<^verbatim>\<open>gl.getAttribLocation\<close> returns has no influence on what \<^verbatim>\<open>drawShape\<close> does, and the
  fifth and sixth calls issued carry the global \<^verbatim>\<open>location\<close>.
\<close>

theorem attribute_location_unused:
  "drawShape (env\<lparr>attrib_location := a\<rparr>) shapeName w = drawShape env shapeName w
   \<and> (truthy (get_property (shapes (math env)) shapeName) \<longrightarrow>
        (let issued = drop (length (gl_calls w)) (gl_calls (drawShape env shapeName w)) in
           issued ! 3 = GetAttribLocation (program env) ''aPosition''
         \<and> issued ! 4 = EnableVertexAttribArray (global_location env)
         \<and> issued ! 5 = VertexAttribPointer (global_location env) 2 FLOAT False 0 0))"
proof (intro conjI impI)
  show "drawShape (env\<lparr>attrib_location := a\<rparr>) shapeName w = drawShape env shapeName w"
    by (simp add: drawShape_def Let_def gl_createBuffer_def gl_getAttribLocation_def)
next
  assume "truthy (get_property (shapes (math env)) shapeName)"
  then show "let issued = drop (length (gl_calls w)) (gl_calls (drawShape env shapeName w)) in
           issued ! 3 = GetAttribLocation (program env) ''aPosition''
         \<and> issued ! 4 = EnableVertexAttribArray (global_location env)
         \<and> issued ! 5 = VertexAttribPointer (global_location env) 2 FLOAT False 0 0"
    by (simp add: drawShape_found Let_def gl_issue_def console_error_def )
qed

theorem attribute_location_unused_witness:
  "truthy (get_property (shapes correctly_rounded) ''line'')
   \<and> drawShape \<lparr>math = correctly_rounded, program = 1, new_buffer = 2, attrib_location = Fin 7,
                 global_location = VObject ''Location''\<rparr> ''line''
                \<lparr>gl_calls = [], console_errors = []\<rparr>
     = drawShape \<lparr>math = correctly_rounded, program = 1, new_buffer = 2, attrib_location = Fin 0,
                   global_location = VObject ''Location''\<rparr> ''line''
                  \<lparr>gl_calls = [], console_errors = []\<rparr>
   \<and> gl_calls (drawShape \<lparr>math = correctly_rounded, program = 1, new_buffer = 2, attrib_location = Fin 0,
                           global_location = VObject ''Location''\<rparr> ''line''
                          \<lparr>gl_calls = [], console_errors = []\<rparr>) ! 4
     = EnableVertexAttribArray (VObject ''Location'')"
proof -
  have tr: "truthy (get_property (shapes correctly_rounded) ''line'')" by (simp add: shapes_own)
  have tr': "truthy (get_property
      (shapes (math \<lparr>math = correctly_rounded, program = 1, new_buffer = 2,
                      attrib_location = Fin 0, global_location = VObject ''Location''\<rparr>))
      ''line'')"
    by (simp add: shapes_own)
  note t = attribute_location_unused [where
      env = "\<lparr>math = correctly_rounded, program = 1, new_buffer = 2, attrib_location = Fin 0,
              global_location = VObject ''Location''\<rparr>"
      and a = "Fin 7" and shapeName = "''line''"
      and w = "\<lparr>gl_calls = [], console_errors = []\<rparr>"]
  note eq = t [THEN conjunct1]
  note calls = t [THEN conjunct2, rule_format, OF tr', unfolded Let_def, THEN conjunct2,
      THEN conjunct1]
  from tr eq calls show ?thesis by simp
qed

end
